theory Spec2Isabelle
  imports Main
begin

unbundle bit_operations_syntax

section \<open>The HD44780 driver of \<^verbatim>\<open>hd44780.py\<close>\<close>

text \<open>
  The driver is one Python class, \<^verbatim>\<open>HD44780\<close>. Its only effects are calls of
  \<^verbatim>\<open>Pin.value\<close> on the register-select pin, the clock pin and the data pins, and calls
  of \<^verbatim>\<open>time.sleep_us\<close>. The model records these calls, in order, as a list of events;
  the list is the state of the wires. An exception is a value: a failing operation returns
  \<open>Inl\<close> of the exception together with the events that happened before it was raised
  (the pins keep what was written to them).
\<close>

subsection \<open>Exceptions, pin events, values\<close>

datatype error =
    PyException string  \<comment> \<open>\<^verbatim>\<open>raise Exception("...")\<close>, the driver's own two errors\<close>
  | IndexError          \<comment> \<open>a list or tuple index out of range\<close>
  | TypeError           \<comment> \<open>subscripting an \<^verbatim>\<open>int\<close>\<close>
  | ValueError          \<comment> \<open>\<^verbatim>\<open>range()\<close> with step zero\<close>
  | ZeroDivisionError   \<comment> \<open>\<^verbatim>\<open>%\<close> or \<^verbatim>\<open>//\<close> by zero\<close>

datatype pin_event =
    RS int          \<comment> \<open>\<^verbatim>\<open>self._rs_pin.value(v)\<close>\<close>
  | DATA nat int    \<comment> \<open>\<^verbatim>\<open>self._data_pins[b].value(v)\<close>\<close>
  | CLK int         \<comment> \<open>\<^verbatim>\<open>self._clk_pin.value(v)\<close>\<close>
  | SLEEP_US int    \<comment> \<open>\<^verbatim>\<open>time.sleep_us(delay_us)\<close>\<close>

type_synonym 'a result = "(error \<times> pin_event list) + 'a"

text \<open>
  \<^verbatim>\<open>_init_line_addrs\<close> returns a tuple of integers on two of its paths and a bare integer
  on the third: \<^verbatim>\<open>(self.DDRAM0_START)\<close> is a parenthesised expression, not a tuple.
\<close>

datatype pyval = PyInt int | PyTuple "int list"

subsection \<open>Class constants\<close>

definition DDRAM0_START :: int where "DDRAM0_START = 0x00"
definition DDRAM1_START :: int where "DDRAM1_START = 0x40"

definition MSG_TYPE_CMD :: int where "MSG_TYPE_CMD = 0"
definition MSG_TYPE_DATA :: int where "MSG_TYPE_DATA = 1"

definition MODE_UNKNOWN :: int where "MODE_UNKNOWN = 0"
definition MODE_8BIT :: int where "MODE_8BIT = 8"
definition MODE_4BIT :: int where "MODE_4BIT = 4"

definition FONT_5x8 :: int where "FONT_5x8 = 0"
definition FONT_5x10 :: int where "FONT_5x10 = 1"

text \<open>The default of \<^verbatim>\<open>_send\<close>'s parameter \<^verbatim>\<open>delay_us\<close>; no caller passes another.\<close>

definition DELAY_US :: int where "DELAY_US = 1530"

subsection \<open>The object\<close>

record hd44780 =
  rs_pin :: string
  clk_pin :: string
  data_pins :: "string list"
  ch_idx :: int
  width :: int
  height :: int
  line_addr :: pyval
  no_pins :: nat
  mode :: int
  last_cmd_complete :: int
  rw_pin :: "string option"
  pins :: "pin_event list"

definition and_then :: "'a result \<Rightarrow> ('a \<Rightarrow> 'b result) \<Rightarrow> 'b result" where
  "and_then r f = (case r of Inl e \<Rightarrow> Inl e | Inr x \<Rightarrow> f x)"

subsection \<open>\<^verbatim>\<open>_send\<close>\<close>

text \<open>
  \<^verbatim>\<open>range(0, stop, step)\<close> for a positive step: the multiples of \<open>step\<close> below
  \<open>stop\<close>, in increasing order.
\<close>

definition range_step :: "nat \<Rightarrow> nat \<Rightarrow> nat list" where
  "range_step stop step = filter (\<lambda>i. i mod step = 0) [0..<stop]"

text \<open>
  The inner loop, \<^verbatim>\<open>for b in range(0, self._no_pins): self._data_pins[b].value(bit_data[i+b])\<close>.
  Both subscripts are non-negative, so each raises IndexError exactly when it is past the end.
\<close>

fun set_data_pins ::
  "string list \<Rightarrow> int list \<Rightarrow> nat \<Rightarrow> nat list \<Rightarrow> pin_event list \<Rightarrow> pin_event list result" where
  "set_data_pins dp bit_data i [] tr = Inr tr"
| "set_data_pins dp bit_data i (b # bs) tr =
     (if b < length dp \<and> i + b < length bit_data
      then set_data_pins dp bit_data i bs (tr @ [DATA b (bit_data ! (i + b))])
      else Inl (IndexError, tr))"

text \<open>The outer loop over the chunk starts: set the pins, then pulse the clock.\<close>

fun send_chunks ::
  "hd44780 \<Rightarrow> int list \<Rightarrow> int \<Rightarrow> nat list \<Rightarrow> pin_event list \<Rightarrow> pin_event list result" where
  "send_chunks s bit_data delay_us [] tr = Inr tr"
| "send_chunks s bit_data delay_us (i # starts) tr =
     (case set_data_pins (data_pins s) bit_data i [0..<no_pins s] tr of
        Inl e \<Rightarrow> Inl e
      | Inr tr' \<Rightarrow>
          send_chunks s bit_data delay_us starts (tr' @ [CLK 1, SLEEP_US delay_us, CLK 0]))"

definition send :: "hd44780 \<Rightarrow> int list \<Rightarrow> int \<Rightarrow> int \<Rightarrow> hd44780 result" where
  "send s bit_data msg_type delay_us =
     (let tr = pins s @ [RS (if msg_type = MSG_TYPE_DATA then 1 else 0)];
          payload_len = length bit_data
      in if no_pins s = 0 then Inl (ValueError, tr)
         else (case send_chunks s bit_data delay_us (range_step payload_len (no_pins s)) tr of
                 Inl e \<Rightarrow> Inl e
               | Inr tr' \<Rightarrow> Inr (s\<lparr>pins := tr'\<rparr>)))"

subsection \<open>Command encoders\<close>

definition clear :: "hd44780 \<Rightarrow> hd44780 result" where
  "clear s = send s [0,0,0,0,0,0,0,1] MSG_TYPE_CMD DELAY_US"

definition home :: "hd44780 \<Rightarrow> hd44780 result" where
  "home s = send s [0,0,0,0,0,0,1,0] MSG_TYPE_CMD DELAY_US"

definition shift :: "hd44780 \<Rightarrow> int \<Rightarrow> int \<Rightarrow> hd44780 result" where
  "shift s s_c r_l = send s [0,0,0,1,s_c,r_l,0,0] MSG_TYPE_CMD DELAY_US"

definition set_display_opts :: "hd44780 \<Rightarrow> int \<Rightarrow> int \<Rightarrow> int \<Rightarrow> hd44780 result" where
  "set_display_opts s d c b = send s [0,0,0,0,1,d,c,b] MSG_TYPE_CMD DELAY_US"

definition set_entry_mode :: "hd44780 \<Rightarrow> int \<Rightarrow> int \<Rightarrow> hd44780 result" where
  "set_entry_mode s i_d sh = send s [0,0,0,0,0,1,i_d,sh] MSG_TYPE_CMD DELAY_US"

definition set_function :: "hd44780 \<Rightarrow> int \<Rightarrow> int \<Rightarrow> hd44780 result" where
  "set_function s n f =
     (let dl_bit = (if no_pins s = 8 then 1 else 0)
      in send s [0,0,1,dl_bit,n,f,1,1] MSG_TYPE_CMD DELAY_US)"

text \<open>
  \<^verbatim>\<open>[(addr >> n & 1) for n in range(7,-1,-1)]\<close>: the shift binds tighter than the mask,
  and the range counts 7, 6, ..., 0. Python's integers are unbounded and two's complement
  under \<^verbatim>\<open>&\<close>, \<^verbatim>\<open>|\<close> and \<^verbatim>\<open>>>\<close>, as \<^typ>\<open>int\<close> is here.
\<close>

definition addr_bits :: "int \<Rightarrow> int list" where
  "addr_bits addr = map (\<lambda>n. drop_bit n addr AND 1) [7,6,5,4,3,2,1,0]"

definition ddram_data :: "int \<Rightarrow> int list" where
  "ddram_data addr = addr_bits ((addr AND 0xff) OR 0x80)"

definition cgram_data :: "int \<Rightarrow> int list" where
  "cgram_data addr = addr_bits ((addr AND 0x7f) OR 0x40)"

definition set_ddram :: "hd44780 \<Rightarrow> int \<Rightarrow> hd44780 result" where
  "set_ddram s addr = send s (ddram_data addr) MSG_TYPE_CMD DELAY_US"

definition set_cgram :: "hd44780 \<Rightarrow> int \<Rightarrow> hd44780 result" where
  "set_cgram s addr = send s (cgram_data addr) MSG_TYPE_CMD DELAY_US"

subsection \<open>Mode switches\<close>

text \<open>\<^verbatim>\<open>for i in range(3): self._send([0,0,1,1], self.MSG_TYPE_CMD)\<close>\<close>

fun set_8bit_loop :: "nat list \<Rightarrow> hd44780 \<Rightarrow> hd44780 result" where
  "set_8bit_loop [] s = Inr s"
| "set_8bit_loop (i # rest) s =
     (case send s [0,0,1,1] MSG_TYPE_CMD DELAY_US of
        Inl e \<Rightarrow> Inl e
      | Inr s' \<Rightarrow> set_8bit_loop rest s')"

definition set_8bit_mode :: "hd44780 \<Rightarrow> hd44780 result" where
  "set_8bit_mode s =
     and_then (set_8bit_loop [0..<3] s) (\<lambda>s'. Inr (s'\<lparr>mode := MODE_8BIT\<rparr>))"

definition set_4bit_mode :: "hd44780 \<Rightarrow> hd44780 result" where
  "set_4bit_mode s =
     and_then (if mode s \<noteq> MODE_8BIT then set_8bit_mode s else Inr s)
       (\<lambda>s'. send s' [0,0,1,0] MSG_TYPE_CMD DELAY_US)"

subsection \<open>\<^verbatim>\<open>_init_line_addrs\<close> and \<^verbatim>\<open>__init__\<close>\<close>

definition init_line_addrs :: "int \<Rightarrow> int \<Rightarrow> error + pyval" where
  "init_line_addrs w h =
     (if h = 1 then Inr (PyInt DDRAM0_START)
      else if h = 2 then Inr (PyTuple [DDRAM0_START, DDRAM1_START])
      else if h = 4 then
        Inr (PyTuple [DDRAM0_START, DDRAM1_START, DDRAM0_START + 0x14, DDRAM1_START + 0x14])
      else Inl (PyException ''No DDRAM -> pixel mapping for this ratio!''))"

text \<open>
  The constructor. \<^verbatim>\<open>Pin(name, Pin.OUT)\<close> belongs to the board's library and is taken
  to succeed; it writes no level, so it leaves no event. \<open>init_fields\<close> is the object once
  the constructor has assigned its attributes (source lines 124 to 141), before the first
  transfer. The parameter \<^verbatim>\<open>font\<close> is accepted and not read again.
\<close>

definition init_fields ::
  "string list \<Rightarrow> string \<Rightarrow> string \<Rightarrow> string option \<Rightarrow> int \<Rightarrow> int \<Rightarrow> pyval \<Rightarrow> hd44780" where
  "init_fields hp clk rs rw w h la =
     \<lparr>rs_pin = rs, clk_pin = clk, data_pins = hp, ch_idx = 0, width = w, height = h,
      line_addr = la, no_pins = length hp, mode = MODE_UNKNOWN, last_cmd_complete = 0,
      rw_pin = rw, pins = []\<rparr>"

definition init ::
  "string list option \<Rightarrow> string \<Rightarrow> string \<Rightarrow> string option \<Rightarrow> int \<Rightarrow> int \<Rightarrow> int
     \<Rightarrow> hd44780 result" where
  "init host_pins clk rs rw w h font =
     (let hp = (case host_pins of
                  None \<Rightarrow> [''GP8'', ''GP30'', ''GP31'', ''GP3'']
                | Some ps \<Rightarrow> ps)
      in case init_line_addrs w h of
           Inl e \<Rightarrow> Inl (e, [])
         | Inr la \<Rightarrow>
             and_then (set_8bit_mode (init_fields hp clk rs rw w h la))
               (\<lambda>s1. and_then
                  (if no_pins s1 = 8 then set_8bit_mode s1
                   else if no_pins s1 = 4 then set_4bit_mode s1
                   else Inl (PyException ''Number of pins must be 4 or 8!'', pins s1))
                  (\<lambda>s2. and_then (clear s2)
                     (\<lambda>s3. if height s3 = 1 then set_function s3 0 0
                            else set_function s3 1 0))))"

subsection \<open>\<^verbatim>\<open>write\<close>\<close>

text \<open>
  \<^verbatim>\<open>'{0:08b}'.format(n)\<close> for \<open>n \<ge> 0\<close>: the binary digits of \<open>n\<close>, most significant
  first, padded with zeros on the left to at least eight; \<^verbatim>\<open>ord(ch)\<close> is never negative.
\<close>

fun bin_digits :: "nat \<Rightarrow> int list" where
  "bin_digits n = (if n < 2 then [int n] else bin_digits (n div 2) @ [int (n mod 2)])"

declare bin_digits.simps [simp del]

definition format_08b :: "nat \<Rightarrow> int list" where
  "format_08b n = (let ds = bin_digits n in replicate (8 - length ds) 0 @ ds)"

text \<open>
  \<^verbatim>\<open>self._line_addr[line_no]\<close>: an \<^verbatim>\<open>int\<close> is not subscriptable; a tuple takes a
  negative index from its end.
\<close>

definition getitem :: "pyval \<Rightarrow> int \<Rightarrow> error + int" where
  "getitem v i =
     (case v of
        PyInt _ \<Rightarrow> Inl TypeError
      | PyTuple xs \<Rightarrow>
          (let n = int (length xs); j = (if i < 0 then i + n else i)
           in if 0 \<le> j \<and> j < n then Inr (xs ! nat j) else Inl IndexError))"

text \<open>
  One round of the loop over \<^verbatim>\<open>buf\<close>; \<open>ch\<close> is \<^verbatim>\<open>ord(ch)\<close>. \<^typ>\<open>int\<close>'s \<open>div\<close> and
  \<open>mod\<close> round as Python's \<^verbatim>\<open>//\<close> and \<^verbatim>\<open>%\<close> do; division by zero raises.
\<close>

definition write_char :: "hd44780 \<Rightarrow> nat \<Rightarrow> hd44780 result" where
  "write_char s ch =
     (if width s = 0 then Inl (ZeroDivisionError, pins s)
      else
        and_then
          (if ch_idx s mod width s = 0
           then (case getitem (line_addr s) (ch_idx s div width s) of
                   Inl e \<Rightarrow> Inl (e, pins s)
                 | Inr a \<Rightarrow> set_ddram s a)
           else Inr s)
          (\<lambda>s1. and_then (send s1 (format_08b ch) MSG_TYPE_DATA DELAY_US)
             (\<lambda>s2. if width s2 * height s2 = 0 then Inl (ZeroDivisionError, pins s2)
                    else Inr (s2\<lparr>ch_idx := (ch_idx s2 + 1) mod (width s2 * height s2)\<rparr>))))"

fun write_loop :: "nat list \<Rightarrow> hd44780 \<Rightarrow> hd44780 result" where
  "write_loop [] s = Inr s"
| "write_loop (ch # rest) s =
     (case write_char s ch of
        Inl e \<Rightarrow> Inl e
      | Inr s' \<Rightarrow> write_loop rest s')"

text \<open>\<^verbatim>\<open>write\<close>; the name itself is reserved in Isabelle.\<close>

definition write_buf :: "hd44780 \<Rightarrow> nat list \<Rightarrow> hd44780 result" where
  "write_buf s buf = and_then (home s) (\<lambda>s1. write_loop buf (s1\<lparr>ch_idx := 0\<rparr>))"

subsection \<open>The public operations as a call table\<close>

datatype call =
    Clear
  | Home
  | Shift int int
  | Write "nat list"
  | Set_8bit_mode
  | Set_4bit_mode
  | Set_display_opts int int int
  | Set_entry_mode int int
  | Set_function int int
  | Set_ddram int
  | Set_cgram int

fun invoke :: "call \<Rightarrow> hd44780 \<Rightarrow> hd44780 result" where
  "invoke Clear s = clear s"
| "invoke Home s = home s"
| "invoke (Shift s_c r_l) s = shift s s_c r_l"
| "invoke (Write buf) s = write_buf s buf"
| "invoke Set_8bit_mode s = set_8bit_mode s"
| "invoke Set_4bit_mode s = set_4bit_mode s"
| "invoke (Set_display_opts d c b) s = set_display_opts s d c b"
| "invoke (Set_entry_mode i_d sh) s = set_entry_mode s i_d sh"
| "invoke (Set_function n f) s = set_function s n f"
| "invoke (Set_ddram addr) s = set_ddram s addr"
| "invoke (Set_cgram addr) s = set_cgram s addr"

text \<open>A program that calls the operations one after another; an exception ends it.\<close>

fun run :: "call list \<Rightarrow> hd44780 \<Rightarrow> hd44780 result" where
  "run [] s = Inr s"
| "run (c # cs) s = (case invoke c s of Inl e \<Rightarrow> Inl e | Inr s' \<Rightarrow> run cs s')"

subsection \<open>Reading the wires\<close>

text \<open>The level last written to the clock pin, if any was.\<close>

fun clk_level :: "pin_event list \<Rightarrow> int option" where
  "clk_level [] = None"
| "clk_level (e # tr) =
     (case clk_level tr of
        Some v \<Rightarrow> Some v
      | None \<Rightarrow> (case e of CLK v \<Rightarrow> Some v | _ \<Rightarrow> None))"

text \<open>
  The clock level an operation leaves behind, whether it returned or raised, and the
  relation "low, or as found".
\<close>

definition clk_after :: "hd44780 result \<Rightarrow> int option" where
  "clk_after r = (case r of Inl (e, tr) \<Rightarrow> clk_level tr | Inr s \<Rightarrow> clk_level (pins s))"

definition low_or :: "int option \<Rightarrow> int option \<Rightarrow> bool" where
  "low_or l0 l = (l = Some 0 \<or> l = l0)"

text \<open>
  What one call of \<^verbatim>\<open>_send\<close> writes on a bus of \<open>n\<close> data pins when nothing raises:
  the register-select level, then for each chunk start the \<open>n\<close> data levels in pin
  order and one clock pulse.
\<close>

definition transfer :: "nat \<Rightarrow> int \<Rightarrow> int list \<Rightarrow> int \<Rightarrow> pin_event list" where
  "transfer n rs bit_data delay_us =
     RS rs # concat (map (\<lambda>i. map (\<lambda>b. DATA b (bit_data ! (i + b))) [0..<n]
                                @ [CLK 1, SLEEP_US delay_us, CLK 0])
                         (range_step (length bit_data) n))"

text \<open>
  Bit \<open>k\<close> of a byte, and the events of one byte on the wires: on 4 data pins the high
  nibble and then the low nibble, on 8 data pins all eight bits at once, in both cases with
  data pin 0 carrying the most significant bit, each chunk followed by a clock pulse.
\<close>

definition byte_bit :: "int \<Rightarrow> nat \<Rightarrow> int" where
  "byte_bit v k = (v div 2 ^ k) mod 2"

definition byte_on_4_pins :: "int \<Rightarrow> int \<Rightarrow> pin_event list" where
  "byte_on_4_pins rs v =
     [RS rs,
      DATA 0 (byte_bit v 7), DATA 1 (byte_bit v 6), DATA 2 (byte_bit v 5), DATA 3 (byte_bit v 4),
      CLK 1, SLEEP_US 1530, CLK 0,
      DATA 0 (byte_bit v 3), DATA 1 (byte_bit v 2), DATA 2 (byte_bit v 1), DATA 3 (byte_bit v 0),
      CLK 1, SLEEP_US 1530, CLK 0]"

definition byte_on_8_pins :: "int \<Rightarrow> int \<Rightarrow> pin_event list" where
  "byte_on_8_pins rs v =
     [RS rs,
      DATA 0 (byte_bit v 7), DATA 1 (byte_bit v 6), DATA 2 (byte_bit v 5), DATA 3 (byte_bit v 4),
      DATA 4 (byte_bit v 3), DATA 5 (byte_bit v 2), DATA 6 (byte_bit v 1), DATA 7 (byte_bit v 0),
      CLK 1, SLEEP_US 1530, CLK 0]"

text \<open>The number a list of bits denotes, most significant bit first.\<close>

definition bits_value :: "int list \<Rightarrow> int" where
  "bits_value bs = foldl (\<lambda>acc b. 2 * acc + b) 0 bs"

subsection \<open>Sound objects\<close>

text \<open>
  What \<^verbatim>\<open>write\<close> relies on: a pin count that divides eight and is backed by as many
  pins, a positive geometry, a line table that is a tuple with an entry for every row, and
  a counter that names a cell.
\<close>

definition usable :: "hd44780 \<Rightarrow> bool" where
  "usable s \<longleftrightarrow>
     0 < no_pins s \<and> no_pins s \<le> length (data_pins s) \<and> no_pins s dvd 8 \<and>
     0 < width s \<and> 0 < height s \<and>
     (case line_addr s of PyInt _ \<Rightarrow> False | PyTuple addrs \<Rightarrow> height s \<le> int (length addrs)) \<and>
     0 \<le> ch_idx s \<and> ch_idx s < width s * height s"

section \<open>Properties\<close>

subsection \<open>The transfer primitive\<close>

lemmas consts_defs = DDRAM0_START_def DDRAM1_START_def MSG_TYPE_CMD_def MSG_TYPE_DATA_def
  MODE_UNKNOWN_def MODE_8BIT_def MODE_4BIT_def FONT_5x8_def FONT_5x10_def DELAY_US_def

lemma set_data_pins_ok:
  "\<forall>b \<in> set bs. b < length dp \<and> i + b < length bit_data \<Longrightarrow>
   set_data_pins dp bit_data i bs tr = Inr (tr @ map (\<lambda>b. DATA b (bit_data ! (i + b))) bs)"
  by (induction bs arbitrary: tr) auto

lemma send_chunks_ok:
  "no_pins s \<le> length (data_pins s) \<Longrightarrow>
   \<forall>i \<in> set starts. i + no_pins s \<le> length bit_data \<Longrightarrow>
   send_chunks s bit_data d starts tr =
     Inr (tr @ concat (map (\<lambda>i. map (\<lambda>b. DATA b (bit_data ! (i + b))) [0..<no_pins s]
                                  @ [CLK 1, SLEEP_US d, CLK 0]) starts))"
proof (induction starts arbitrary: tr)
  case Nil
  then show ?case by simp
next
  case (Cons i starts)
  have "set_data_pins (data_pins s) bit_data i [0..<no_pins s] tr =
          Inr (tr @ map (\<lambda>b. DATA b (bit_data ! (i + b))) [0..<no_pins s])"
    using Cons.prems by (intro set_data_pins_ok) auto
  then show ?case using Cons by simp
qed

lemma range_step_bound:
  assumes "n dvd len" "i \<in> set (range_step len n)"
  shows "i + n \<le> len"
proof -
  from assms(2) have i: "i < len" "n dvd i"
    by (auto simp: range_step_def)
  with assms(1) have "n dvd len - i" by (simp add: dvd_diff_nat)
  with i(1) have "n \<le> len - i" by (intro dvd_imp_le) simp_all
  with i(1) show ?thesis by simp
qed

text \<open>
  When the pin count is positive and divides the payload length, \<^verbatim>\<open>_send\<close> returns and
  has written exactly \<open>transfer\<close>.
\<close>

lemma send_ok:
  assumes "0 < no_pins s" "no_pins s \<le> length (data_pins s)" "no_pins s dvd length bit_data"
  shows "send s bit_data msg_type d =
           Inr (s\<lparr>pins := pins s @
                  transfer (no_pins s) (if msg_type = MSG_TYPE_DATA then 1 else 0) bit_data d\<rparr>)"
proof -
  have "\<forall>i \<in> set (range_step (length bit_data) (no_pins s)). i + no_pins s \<le> length bit_data"
    using assms(3) range_step_bound by blast
  from send_chunks_ok [OF assms(2) this] assms(1)
  show ?thesis by (simp add: send_def transfer_def Let_def)
qed

lemma transfer_4:
  "transfer 4 r [b7,b6,b5,b4,b3,b2,b1,b0] d =
     [RS r, DATA 0 b7, DATA 1 b6, DATA 2 b5, DATA 3 b4, CLK 1, SLEEP_US d, CLK 0,
            DATA 0 b3, DATA 1 b2, DATA 2 b1, DATA 3 b0, CLK 1, SLEEP_US d, CLK 0]"
  by (simp add: transfer_def range_step_def upt_rec)

lemma transfer_8:
  "transfer 8 r [b7,b6,b5,b4,b3,b2,b1,b0] d =
     [RS r, DATA 0 b7, DATA 1 b6, DATA 2 b5, DATA 3 b4,
            DATA 4 b3, DATA 5 b2, DATA 6 b1, DATA 7 b0, CLK 1, SLEEP_US d, CLK 0]"
  by (simp add: transfer_def range_step_def upt_rec)

lemma send4_byte:
  assumes "no_pins s = 4" "4 \<le> length (data_pins s)"
  shows "send s [b7,b6,b5,b4,b3,b2,b1,b0] t d =
    Inr (s\<lparr>pins := pins s @
      [RS (if t = MSG_TYPE_DATA then 1 else 0),
       DATA 0 b7, DATA 1 b6, DATA 2 b5, DATA 3 b4, CLK 1, SLEEP_US d, CLK 0,
       DATA 0 b3, DATA 1 b2, DATA 2 b1, DATA 3 b0, CLK 1, SLEEP_US d, CLK 0]\<rparr>)"
proof -
  have l: "length [b7,b6,b5,b4,b3,b2,b1,b0] = 8" by simp
  have "(4::nat) dvd 8" by presburger
  then have "no_pins s dvd length [b7,b6,b5,b4,b3,b2,b1,b0]" unfolding l assms(1) .
  from send_ok [OF _ _ this, of t d] assms show ?thesis by (simp only: transfer_4)
qed

lemma send8_byte:
  assumes "no_pins s = 8" "8 \<le> length (data_pins s)"
  shows "send s [b7,b6,b5,b4,b3,b2,b1,b0] t d =
    Inr (s\<lparr>pins := pins s @
      [RS (if t = MSG_TYPE_DATA then 1 else 0),
       DATA 0 b7, DATA 1 b6, DATA 2 b5, DATA 3 b4,
       DATA 4 b3, DATA 5 b2, DATA 6 b1, DATA 7 b0, CLK 1, SLEEP_US d, CLK 0]\<rparr>)"
proof -
  have l: "length [b7,b6,b5,b4,b3,b2,b1,b0] = 8" by simp
  have "(8::nat) dvd 8" by presburger
  then have "no_pins s dvd length [b7,b6,b5,b4,b3,b2,b1,b0]" unfolding l assms(1) .
  from send_ok [OF _ _ this, of t d] assms show ?thesis by (simp only: transfer_8)
qed

text \<open>
  Claim C6. An 8-bit payload \<open>[b7, ..., b0]\<close> (most significant bit first, as every encoder
  builds it) sent through \<^verbatim>\<open>_send\<close>: with 4 data pins it is exactly two chunks, the
  high nibble \<open>b7 b6 b5 b4\<close> first and then \<open>b3 b2 b1 b0\<close>, data pin 0 carrying the most
  significant bit of each chunk; with 8 data pins it is exactly one chunk of 8 pins. Each
  chunk sets the data pins, raises the clock, sleeps the settle delay and lowers the clock.
  The register-select pin is written once, before the first chunk.
\<close>

theorem send_byte_chunks:
  "(no_pins s = 4 \<and> 4 \<le> length (data_pins s) \<longrightarrow>
      send s [b7,b6,b5,b4,b3,b2,b1,b0] t d =
        Inr (s\<lparr>pins := pins s @
          [RS (if t = MSG_TYPE_DATA then 1 else 0),
           DATA 0 b7, DATA 1 b6, DATA 2 b5, DATA 3 b4, CLK 1, SLEEP_US d, CLK 0,
           DATA 0 b3, DATA 1 b2, DATA 2 b1, DATA 3 b0, CLK 1, SLEEP_US d, CLK 0]\<rparr>)) \<and>
   (no_pins s = 8 \<and> 8 \<le> length (data_pins s) \<longrightarrow>
      send s [b7,b6,b5,b4,b3,b2,b1,b0] t d =
        Inr (s\<lparr>pins := pins s @
          [RS (if t = MSG_TYPE_DATA then 1 else 0),
           DATA 0 b7, DATA 1 b6, DATA 2 b5, DATA 3 b4,
           DATA 4 b3, DATA 5 b2, DATA 6 b1, DATA 7 b0, CLK 1, SLEEP_US d, CLK 0]\<rparr>))"
  by (simp add: send4_byte send8_byte)

theorem send_byte_chunks_witness:
  "send (init_fields [''GP8'', ''GP30'', ''GP31'', ''GP3''] ''GP0'' ''GP4'' None 16 2 (PyTuple [0, 64]))
        [0,1,0,0,1,0,0,0] MSG_TYPE_DATA DELAY_US =
     Inr ((init_fields [''GP8'', ''GP30'', ''GP31'', ''GP3''] ''GP0'' ''GP4'' None 16 2 (PyTuple [0, 64]))
            \<lparr>pins := [RS 1,
               DATA 0 0, DATA 1 1, DATA 2 0, DATA 3 0, CLK 1, SLEEP_US 1530, CLK 0,
               DATA 0 1, DATA 1 0, DATA 2 0, DATA 3 0, CLK 1, SLEEP_US 1530, CLK 0]\<rparr>) \<and>
   send (init_fields [''D7'', ''D6'', ''D5'', ''D4'', ''D3'', ''D2'', ''D1'', ''D0''] ''GP0'' ''GP4'' None
           16 2 (PyTuple [0, 64]))
        [0,1,0,0,1,0,0,0] MSG_TYPE_DATA DELAY_US =
     Inr ((init_fields [''D7'', ''D6'', ''D5'', ''D4'', ''D3'', ''D2'', ''D1'', ''D0''] ''GP0'' ''GP4'' None
             16 2 (PyTuple [0, 64]))
            \<lparr>pins := [RS 1,
               DATA 0 0, DATA 1 1, DATA 2 0, DATA 3 0,
               DATA 4 1, DATA 5 0, DATA 6 0, DATA 7 0, CLK 1, SLEEP_US 1530, CLK 0]\<rparr>)"
  using
    send_byte_chunks [of "init_fields [''GP8'', ''GP30'', ''GP31'', ''GP3''] ''GP0'' ''GP4'' None
                            16 2 (PyTuple [0, 64])" 0 1 0 0 1 0 0 0 MSG_TYPE_DATA DELAY_US]
    send_byte_chunks [of "init_fields [''D7'', ''D6'', ''D5'', ''D4'', ''D3'', ''D2'', ''D1'', ''D0'']
                            ''GP0'' ''GP4'' None 16 2 (PyTuple [0, 64])"
                         0 1 0 0 1 0 0 0 MSG_TYPE_DATA DELAY_US]
  by (simp add: init_fields_def consts_defs)

subsection \<open>Address commands\<close>

lemma int_half: "(x::int) mod 2 = x - 2 * (x div 2)"
  by (simp add: minus_mult_div_eq_mod)

text \<open>The eight bits of a byte, read back most significant first, give the byte.\<close>

lemma addr_bits_value:
  assumes "0 \<le> v" "v < 256"
  shows "bits_value (addr_bits v) = v"
proof -
  have d1: "v div 2 = v div 1 div 2" using zdiv_zmult2_eq [of 2 v 1] by simp
  have d2: "v div 4 = v div 2 div 2" using zdiv_zmult2_eq [of 2 v 2] by simp
  have d3: "v div 8 = v div 4 div 2" using zdiv_zmult2_eq [of 2 v 4] by simp
  have d4: "v div 16 = v div 8 div 2" using zdiv_zmult2_eq [of 2 v 8] by simp
  have d5: "v div 32 = v div 16 div 2" using zdiv_zmult2_eq [of 2 v 16] by simp
  have d6: "v div 64 = v div 32 div 2" using zdiv_zmult2_eq [of 2 v 32] by simp
  have d7: "v div 128 = v div 64 div 2" using zdiv_zmult2_eq [of 2 v 64] by simp
  have d8: "v div 256 = v div 128 div 2" using zdiv_zmult2_eq [of 2 v 128] by simp
  have r0: "v div 1 mod 2 = v div 1 - 2 * (v div 2)" unfolding d1 by (rule int_half)
  have r1: "v div 2 mod 2 = v div 2 - 2 * (v div 4)" unfolding d2 by (rule int_half)
  have r2: "v div 4 mod 2 = v div 4 - 2 * (v div 8)" unfolding d3 by (rule int_half)
  have r3: "v div 8 mod 2 = v div 8 - 2 * (v div 16)" unfolding d4 by (rule int_half)
  have r4: "v div 16 mod 2 = v div 16 - 2 * (v div 32)" unfolding d5 by (rule int_half)
  have r5: "v div 32 mod 2 = v div 32 - 2 * (v div 64)" unfolding d6 by (rule int_half)
  have r6: "v div 64 mod 2 = v div 64 - 2 * (v div 128)" unfolding d7 by (rule int_half)
  have r7: "v div 128 mod 2 = v div 128 - 2 * (v div 256)" unfolding d8 by (rule int_half)
  have r8: "v div 256 = 0" using assms by simp
  have "bits_value (addr_bits v) =
     128 * (v div 128 mod 2) + 64 * (v div 64 mod 2) + 32 * (v div 32 mod 2)
     + 16 * (v div 16 mod 2) + 8 * (v div 8 mod 2) + 4 * (v div 4 mod 2)
     + 2 * (v div 2 mod 2) + v div 1 mod 2"
    by (simp add: bits_value_def addr_bits_def and_one_eq drop_bit_eq_div)
  also have "\<dots> = v" unfolding r0 r1 r2 r3 r4 r5 r6 r7 r8 by simp
  finally show ?thesis .
qed

lemma addr_bits_length: "length (addr_bits v) = 8"
  by (simp add: addr_bits_def)

lemma addr_bits_binary: "set (addr_bits v) \<subseteq> {0, 1}"
  by (auto simp: addr_bits_def and_one_eq)

lemma ddram_byte_range:
  "0 \<le> (a AND 0xff) OR (0x80::int) \<and> (a AND 0xff) OR (0x80::int) < 256"
proof -
  have 1: "0 \<le> a AND 0xff" by simp
  have "a AND 0xff \<le> 0xff" by (rule AND_upper2) simp
  then have 2: "a AND 0xff < 2 ^ 8" by simp
  have "(a AND 0xff) OR 0x80 < 2 ^ 8" by (rule OR_upper [OF 1 2]) simp
  with 1 show ?thesis by simp
qed

lemma cgram_byte_range:
  "0 \<le> (a AND 0x7f) OR (0x40::int) \<and> (a AND 0x7f) OR (0x40::int) < 256"
proof -
  have 1: "0 \<le> a AND 0x7f" by simp
  have "a AND 0x7f \<le> 0x7f" by (rule AND_upper2) simp
  then have 2: "a AND 0x7f < 2 ^ 8" by simp
  have "(a AND 0x7f) OR 0x40 < 2 ^ 8" by (rule OR_upper [OF 1 2]) simp
  with 1 show ?thesis by simp
qed

lemma addr_bits_byte_bit:
  "addr_bits v = [byte_bit v 7, byte_bit v 6, byte_bit v 5, byte_bit v 4,
                  byte_bit v 3, byte_bit v 2, byte_bit v 1, byte_bit v 0]"
  by (simp add: addr_bits_def byte_bit_def and_one_eq drop_bit_eq_div)

lemma send_addr_bits_4:
  assumes "no_pins s = 4" "4 \<le> length (data_pins s)"
  shows "send s (addr_bits v) MSG_TYPE_CMD DELAY_US = Inr (s\<lparr>pins := pins s @ byte_on_4_pins 0 v\<rparr>)"
  unfolding addr_bits_byte_bit send4_byte [OF assms] byte_on_4_pins_def
  by (simp add: MSG_TYPE_CMD_def MSG_TYPE_DATA_def DELAY_US_def)

lemma send_addr_bits_8:
  assumes "no_pins s = 8" "8 \<le> length (data_pins s)"
  shows "send s (addr_bits v) MSG_TYPE_CMD DELAY_US = Inr (s\<lparr>pins := pins s @ byte_on_8_pins 0 v\<rparr>)"
  unfolding addr_bits_byte_bit send8_byte [OF assms] byte_on_8_pins_def
  by (simp add: MSG_TYPE_CMD_def MSG_TYPE_DATA_def DELAY_US_def)

lemma byte_on_4_pins_0x85:
  "byte_on_4_pins 0 0x85 =
     [RS 0, DATA 0 1, DATA 1 0, DATA 2 0, DATA 3 0, CLK 1, SLEEP_US 1530, CLK 0,
            DATA 0 0, DATA 1 1, DATA 2 0, DATA 3 1, CLK 1, SLEEP_US 1530, CLK 0]"
  by (simp add: byte_on_4_pins_def byte_bit_def)

lemma byte_on_4_pins_0x45:
  "byte_on_4_pins 0 0x45 =
     [RS 0, DATA 0 0, DATA 1 1, DATA 2 0, DATA 3 0, CLK 1, SLEEP_US 1530, CLK 0,
            DATA 0 0, DATA 1 1, DATA 2 0, DATA 3 1, CLK 1, SLEEP_US 1530, CLK 0]"
  by (simp add: byte_on_4_pins_def byte_bit_def)

lemma byte_on_8_pins_0x85:
  "byte_on_8_pins 0 0x85 =
     [RS 0, DATA 0 1, DATA 1 0, DATA 2 0, DATA 3 0, DATA 4 0, DATA 5 1, DATA 6 0, DATA 7 1,
      CLK 1, SLEEP_US 1530, CLK 0]"
  by (simp add: byte_on_8_pins_def byte_bit_def)

lemma byte_on_8_pins_0x45:
  "byte_on_8_pins 0 0x45 =
     [RS 0, DATA 0 0, DATA 1 1, DATA 2 0, DATA 3 0, DATA 4 0, DATA 5 1, DATA 6 0, DATA 7 1,
      CLK 1, SLEEP_US 1530, CLK 0]"
  by (simp add: byte_on_8_pins_def byte_bit_def)

lemma addr_5: "(0x05 AND 0xff) OR (0x80::int) = 0x85" "(0x05 AND 0x7f) OR (0x40::int) = 0x45"
  by simp_all

text \<open>
  Claim C8. For every address \<open>a\<close>, \<^verbatim>\<open>set_ddram(a)\<close> sends the byte
  \<open>(a & 0xff) | 0x80\<close> as a command and \<^verbatim>\<open>set_cgram(a)\<close> sends the byte
  \<open>(a & 0x7f) | 0x40\<close>: the register-select pin is written 0, and the bits of that byte
  go out most significant first, in two clocked chunks on 4 data pins and in one on 8. At
  \<open>a = 0x05\<close> the bytes are 0x85 and 0x45, and the wires carry \<open>1000 0101\<close> and
  \<open>0100 0101\<close>. The payload handed to \<^verbatim>\<open>_send\<close> has eight entries, each 0 or 1, that
  denote the byte.
\<close>

theorem set_address_bytes:
  "(no_pins s = 4 \<and> 4 \<le> length (data_pins s) \<longrightarrow>
      set_ddram s a = Inr (s\<lparr>pins := pins s @ byte_on_4_pins 0 ((a AND 0xff) OR 0x80)\<rparr>) \<and>
      set_cgram s a = Inr (s\<lparr>pins := pins s @ byte_on_4_pins 0 ((a AND 0x7f) OR 0x40)\<rparr>)) \<and>
   (no_pins s = 8 \<and> 8 \<le> length (data_pins s) \<longrightarrow>
      set_ddram s a = Inr (s\<lparr>pins := pins s @ byte_on_8_pins 0 ((a AND 0xff) OR 0x80)\<rparr>) \<and>
      set_cgram s a = Inr (s\<lparr>pins := pins s @ byte_on_8_pins 0 ((a AND 0x7f) OR 0x40)\<rparr>)) \<and>
   (0x05 AND 0xff) OR (0x80::int) = 0x85 \<and> (0x05 AND 0x7f) OR (0x40::int) = 0x45 \<and>
   byte_on_4_pins 0 0x85 =
     [RS 0, DATA 0 1, DATA 1 0, DATA 2 0, DATA 3 0, CLK 1, SLEEP_US 1530, CLK 0,
            DATA 0 0, DATA 1 1, DATA 2 0, DATA 3 1, CLK 1, SLEEP_US 1530, CLK 0] \<and>
   byte_on_4_pins 0 0x45 =
     [RS 0, DATA 0 0, DATA 1 1, DATA 2 0, DATA 3 0, CLK 1, SLEEP_US 1530, CLK 0,
            DATA 0 0, DATA 1 1, DATA 2 0, DATA 3 1, CLK 1, SLEEP_US 1530, CLK 0] \<and>
   byte_on_8_pins 0 0x85 =
     [RS 0, DATA 0 1, DATA 1 0, DATA 2 0, DATA 3 0, DATA 4 0, DATA 5 1, DATA 6 0, DATA 7 1,
      CLK 1, SLEEP_US 1530, CLK 0] \<and>
   byte_on_8_pins 0 0x45 =
     [RS 0, DATA 0 0, DATA 1 1, DATA 2 0, DATA 3 0, DATA 4 0, DATA 5 1, DATA 6 0, DATA 7 1,
      CLK 1, SLEEP_US 1530, CLK 0] \<and>
   set_ddram s a = send s (ddram_data a) MSG_TYPE_CMD DELAY_US \<and>
   length (ddram_data a) = 8 \<and> set (ddram_data a) \<subseteq> {0, 1} \<and>
   bits_value (ddram_data a) = (a AND 0xff) OR 0x80 \<and>
   set_cgram s a = send s (cgram_data a) MSG_TYPE_CMD DELAY_US \<and>
   length (cgram_data a) = 8 \<and> set (cgram_data a) \<subseteq> {0, 1} \<and>
   bits_value (cgram_data a) = (a AND 0x7f) OR 0x40 \<and>
   ddram_data 0x05 = [1,0,0,0,0,1,0,1] \<and> bits_value [1,0,0,0,0,1,0,1] = 0x85 \<and>
   cgram_data 0x05 = [0,1,0,0,0,1,0,1] \<and> bits_value [0,1,0,0,0,1,0,1] = 0x45"
proof -
  have w4: "no_pins s = 4 \<and> 4 \<le> length (data_pins s) \<longrightarrow>
      set_ddram s a = Inr (s\<lparr>pins := pins s @ byte_on_4_pins 0 ((a AND 0xff) OR 0x80)\<rparr>) \<and>
      set_cgram s a = Inr (s\<lparr>pins := pins s @ byte_on_4_pins 0 ((a AND 0x7f) OR 0x40)\<rparr>)"
    by (simp add: set_ddram_def set_cgram_def ddram_data_def cgram_data_def send_addr_bits_4)
  have w8: "no_pins s = 8 \<and> 8 \<le> length (data_pins s) \<longrightarrow>
      set_ddram s a = Inr (s\<lparr>pins := pins s @ byte_on_8_pins 0 ((a AND 0xff) OR 0x80)\<rparr>) \<and>
      set_cgram s a = Inr (s\<lparr>pins := pins s @ byte_on_8_pins 0 ((a AND 0x7f) OR 0x40)\<rparr>)"
    by (simp add: set_ddram_def set_cgram_def ddram_data_def cgram_data_def send_addr_bits_8)
  have d: "bits_value (ddram_data a) = (a AND 0xff) OR 0x80"
    unfolding ddram_data_def using ddram_byte_range [of a] by (intro addr_bits_value) simp_all
  have c: "bits_value (cgram_data a) = (a AND 0x7f) OR 0x40"
    unfolding cgram_data_def using cgram_byte_range [of a] by (intro addr_bits_value) simp_all
  have e1: "ddram_data 0x05 = [1,0,0,0,0,1,0,1]" by code_simp
  have e2: "cgram_data 0x05 = [0,1,0,0,0,1,0,1]" by code_simp
  have e3: "bits_value [1,0,0,0,0,1,0,1] = 0x85" by (simp add: bits_value_def)
  have e4: "bits_value [0,1,0,0,0,1,0,1] = 0x45" by (simp add: bits_value_def)
  have p: "set_ddram s a = send s (ddram_data a) MSG_TYPE_CMD DELAY_US \<and>
   length (ddram_data a) = 8 \<and> set (ddram_data a) \<subseteq> {0, 1} \<and>
   set_cgram s a = send s (cgram_data a) MSG_TYPE_CMD DELAY_US \<and>
   length (cgram_data a) = 8 \<and> set (cgram_data a) \<subseteq> {0, 1}"
    by (simp add: set_ddram_def set_cgram_def ddram_data_def cgram_data_def
          addr_bits_length addr_bits_binary)
  from w4 w8 addr_5 byte_on_4_pins_0x85 byte_on_4_pins_0x45 byte_on_8_pins_0x85
    byte_on_8_pins_0x45 p d c e1 e2 e3 e4
  show ?thesis by (intro conjI) (elim conjE, assumption)+
qed

theorem set_address_bytes_witness:
  "set_ddram (init_fields [''GP8'', ''GP30'', ''GP31'', ''GP3''] ''GP0'' ''GP4'' None 16 2 (PyTuple [0, 64])) 0x05 =
     Inr ((init_fields [''GP8'', ''GP30'', ''GP31'', ''GP3''] ''GP0'' ''GP4'' None 16 2 (PyTuple [0, 64]))
       \<lparr>pins := [RS 0, DATA 0 1, DATA 1 0, DATA 2 0, DATA 3 0, CLK 1, SLEEP_US 1530, CLK 0,
                       DATA 0 0, DATA 1 1, DATA 2 0, DATA 3 1, CLK 1, SLEEP_US 1530, CLK 0]\<rparr>) \<and>
   set_cgram (init_fields [''GP8'', ''GP30'', ''GP31'', ''GP3''] ''GP0'' ''GP4'' None 16 2 (PyTuple [0, 64])) 0x05 =
     Inr ((init_fields [''GP8'', ''GP30'', ''GP31'', ''GP3''] ''GP0'' ''GP4'' None 16 2 (PyTuple [0, 64]))
       \<lparr>pins := [RS 0, DATA 0 0, DATA 1 1, DATA 2 0, DATA 3 0, CLK 1, SLEEP_US 1530, CLK 0,
                       DATA 0 0, DATA 1 1, DATA 2 0, DATA 3 1, CLK 1, SLEEP_US 1530, CLK 0]\<rparr>) \<and>
   set_ddram (init_fields [''D7'', ''D6'', ''D5'', ''D4'', ''D3'', ''D2'', ''D1'', ''D0''] ''GP0'' ''GP4'' None
                16 2 (PyTuple [0, 64])) 0x05 =
     Inr ((init_fields [''D7'', ''D6'', ''D5'', ''D4'', ''D3'', ''D2'', ''D1'', ''D0''] ''GP0'' ''GP4'' None
             16 2 (PyTuple [0, 64]))
       \<lparr>pins := [RS 0, DATA 0 1, DATA 1 0, DATA 2 0, DATA 3 0, DATA 4 0, DATA 5 1, DATA 6 0,
                  DATA 7 1, CLK 1, SLEEP_US 1530, CLK 0]\<rparr>) \<and>
   set_cgram (init_fields [''D7'', ''D6'', ''D5'', ''D4'', ''D3'', ''D2'', ''D1'', ''D0''] ''GP0'' ''GP4'' None
                16 2 (PyTuple [0, 64])) 0x05 =
     Inr ((init_fields [''D7'', ''D6'', ''D5'', ''D4'', ''D3'', ''D2'', ''D1'', ''D0''] ''GP0'' ''GP4'' None
             16 2 (PyTuple [0, 64]))
       \<lparr>pins := [RS 0, DATA 0 0, DATA 1 1, DATA 2 0, DATA 3 0, DATA 4 0, DATA 5 1, DATA 6 0,
                  DATA 7 1, CLK 1, SLEEP_US 1530, CLK 0]\<rparr>)"
  using
    set_address_bytes [where s = "init_fields [''GP8'', ''GP30'', ''GP31'', ''GP3''] ''GP0'' ''GP4'' None
                     16 2 (PyTuple [0, 64])" and a = 5]
    set_address_bytes [where s = "init_fields [''D7'', ''D6'', ''D5'', ''D4'', ''D3'', ''D2'', ''D1'', ''D0'']
                     ''GP0'' ''GP4'' None 16 2 (PyTuple [0, 64])" and a = 5]
  by (simp add: init_fields_def)

subsection \<open>The clock line\<close>

lemma clk_level_append:
  "clk_level (tr @ tr') = (case clk_level tr' of Some v \<Rightarrow> Some v | None \<Rightarrow> clk_level tr)"
  by (induction tr) (auto split: option.splits)

lemma set_data_pins_clk:
  "set_data_pins dp bit_data i bs tr = Inr tr' \<Longrightarrow> clk_level tr' = clk_level tr"
  by (induction bs arbitrary: tr) (auto simp: clk_level_append split: if_splits)

lemma send_chunks_clk:
  "send_chunks s bit_data d starts tr = Inr tr' \<Longrightarrow>
   clk_level tr' = (if starts = [] then clk_level tr else Some 0)"
proof (induction starts arbitrary: tr)
  case Nil
  then show ?case by simp
next
  case (Cons i starts)
  then obtain tr1 where 1: "set_data_pins (data_pins s) bit_data i [0..<no_pins s] tr = Inr tr1"
    and 2: "send_chunks s bit_data d starts (tr1 @ [CLK 1, SLEEP_US d, CLK 0]) = Inr tr'"
    by (auto split: sum.splits)
  from Cons.IH [OF 2] show ?case by (simp add: clk_level_append)
qed

lemma range_step_nonempty: "0 < len \<Longrightarrow> range_step len n \<noteq> []"
proof -
  assume "0 < len"
  then have "0 \<in> set (range_step len n)" by (simp add: range_step_def)
  then show ?thesis by auto
qed

lemma send_clk:
  assumes "send s bit_data t d = Inr s'" "bit_data \<noteq> []"
  shows "clk_level (pins s') = Some 0"
proof -
  from assms(1) obtain tr' where
    1: "send_chunks s bit_data d (range_step (length bit_data) (no_pins s))
          (pins s @ [RS (if t = MSG_TYPE_DATA then 1 else 0)]) = Inr tr'"
    and 2: "s' = s\<lparr>pins := tr'\<rparr>"
    by (auto simp: send_def Let_def split: if_splits sum.splits)
  from assms(2) have "range_step (length bit_data) (no_pins s) \<noteq> []"
    by (intro range_step_nonempty) simp
  with send_chunks_clk [OF 1] 2 show ?thesis by simp
qed

lemma send_clk_keep:
  assumes "send s bit_data t d = Inr s'" "clk_level (pins s) = Some 0"
  shows "clk_level (pins s') = Some 0"
proof -
  from assms(1) obtain tr' where
    1: "send_chunks s bit_data d (range_step (length bit_data) (no_pins s))
          (pins s @ [RS (if t = MSG_TYPE_DATA then 1 else 0)]) = Inr tr'"
    and 2: "s' = s\<lparr>pins := tr'\<rparr>"
    by (auto simp: send_def Let_def split: if_splits sum.splits)
  from send_chunks_clk [OF 1] 2 assms(2) show ?thesis by (simp add: clk_level_append)
qed

lemma set_8bit_loop_clk:
  "set_8bit_loop is s = Inr s' \<Longrightarrow> is \<noteq> [] \<Longrightarrow> clk_level (pins s') = Some 0"
proof (induction "is" arbitrary: s)
  case Nil
  then show ?case by simp
next
  case (Cons i rest)
  then obtain s1 where 1: "send s [0,0,1,1] MSG_TYPE_CMD DELAY_US = Inr s1"
    and 2: "set_8bit_loop rest s1 = Inr s'"
    by (auto split: sum.splits)
  from send_clk [OF 1] have c1: "clk_level (pins s1) = Some 0" by simp
  show ?case
  proof (cases rest)
    case Nil
    with 2 c1 show ?thesis by simp
  next
    case (Cons a list)
    with Cons.IH [OF 2] show ?thesis by simp
  qed
qed

lemma set_8bit_mode_clk:
  assumes "set_8bit_mode s = Inr s'" shows "clk_level (pins s') = Some 0"
proof -
  from assms obtain s1 where 1: "set_8bit_loop [0..<3] s = Inr s1" and 2: "s' = s1\<lparr>mode := MODE_8BIT\<rparr>"
    by (auto simp: set_8bit_mode_def and_then_def split: sum.splits)
  have "[0..<3] \<noteq> []" by simp
  from set_8bit_loop_clk [OF 1 this] 2 show ?thesis by simp
qed

lemma set_4bit_mode_clk:
  assumes "set_4bit_mode s = Inr s'" shows "clk_level (pins s') = Some 0"
proof -
  from assms obtain s1 where "send s1 [0,0,1,0] MSG_TYPE_CMD DELAY_US = Inr s'"
    by (auto simp: set_4bit_mode_def and_then_def split: sum.splits if_splits)
  from send_clk [OF this] show ?thesis by simp
qed

lemma write_char_clk:
  assumes "write_char s ch = Inr s'" "clk_level (pins s) = Some 0"
  shows "clk_level (pins s') = Some 0"
proof -
  from assms(1) obtain s1 s2 where
    1: "s1 = s \<or> (\<exists>a. set_ddram s a = Inr s1)"
    and 2: "send s1 (format_08b ch) MSG_TYPE_DATA DELAY_US = Inr s2"
    and 3: "s' = s2\<lparr>ch_idx := (ch_idx s2 + 1) mod (width s2 * height s2)\<rparr>"
    by (auto simp: write_char_def and_then_def split: sum.splits if_splits)
  from 1 assms(2) have "clk_level (pins s1) = Some 0"
    by (auto simp: set_ddram_def dest: send_clk_keep)
  from send_clk_keep [OF 2 this] 3 show ?thesis by simp
qed

lemma write_loop_clk:
  "write_loop buf s = Inr s' \<Longrightarrow> clk_level (pins s) = Some 0 \<Longrightarrow> clk_level (pins s') = Some 0"
proof (induction buf arbitrary: s)
  case Nil
  then show ?case by simp
next
  case (Cons ch rest)
  then obtain s1 where 1: "write_char s ch = Inr s1" and 2: "write_loop rest s1 = Inr s'"
    by (auto split: sum.splits)
  from write_char_clk [OF 1 Cons.prems(2)] Cons.IH [OF 2] show ?case by simp
qed

lemma write_buf_clk:
  assumes "write_buf s buf = Inr s'" shows "clk_level (pins s') = Some 0"
proof -
  from assms obtain s1 where 1: "home s = Inr s1" and 2: "write_loop buf (s1\<lparr>ch_idx := 0\<rparr>) = Inr s'"
    by (auto simp: write_buf_def and_then_def split: sum.splits)
  from 1 have "clk_level (pins s1) = Some 0" by (auto simp: home_def dest: send_clk)
  with write_loop_clk [OF 2] show ?thesis by simp
qed

text \<open>
  Claim C10. Every public operation (clear, home, shift, write, the two mode switches, the
  option setters, the address setters) that returns has left the clock low: the last level
  written to the clock pin is 0.
\<close>

theorem public_call_leaves_clock_low:
  "invoke c s = Inr s' \<Longrightarrow> clk_level (pins s') = Some 0"
proof (cases c)
  case (Write buf)
  assume "invoke c s = Inr s'"
  with Write show ?thesis by (simp add: write_buf_clk)
next
  case Set_8bit_mode
  assume "invoke c s = Inr s'"
  with Set_8bit_mode show ?thesis by (simp add: set_8bit_mode_clk)
next
  case Set_4bit_mode
  assume "invoke c s = Inr s'"
  with Set_4bit_mode show ?thesis by (simp add: set_4bit_mode_clk)
qed (auto simp: clear_def home_def shift_def set_display_opts_def set_entry_mode_def
      set_function_def set_ddram_def set_cgram_def ddram_data_def cgram_data_def addr_bits_def
      Let_def dest: send_clk)

theorem public_call_leaves_clock_low_witness:
  "\<exists>s s'. init None ''GP0'' ''GP4'' None 16 2 FONT_5x8 = Inr s \<and>
     invoke (Write [72, 105]) s = Inr s' \<and> clk_level (pins s') = Some 0"
proof -
  have "case init None ''GP0'' ''GP4'' None 16 2 FONT_5x8 of
          Inl _ \<Rightarrow> False
        | Inr s \<Rightarrow> (case invoke (Write [72, 105]) s of Inl _ \<Rightarrow> False | Inr s' \<Rightarrow> True)"
    by code_simp
  then obtain s s' where
    1: "init None ''GP0'' ''GP4'' None 16 2 FONT_5x8 = Inr s"
    and 2: "invoke (Write [72, 105]) s = Inr s'"
    by (auto split: sum.splits)
  from public_call_leaves_clock_low [OF 2] 1 2 show ?thesis by blast
qed

subsection \<open>The cursor counter and \<^verbatim>\<open>clear\<close>\<close>

text \<open>\<^verbatim>\<open>_send\<close> changes nothing of the object; only the wires move.\<close>

lemma send_frame: "send s bit_data t d = Inr s' \<Longrightarrow> s' = s\<lparr>pins := pins s'\<rparr>"
  by (auto simp: send_def Let_def split: if_splits sum.splits)

text \<open>
  Claim C2 says that \<^verbatim>\<open>_ch_idx\<close> is 0 after any \<^verbatim>\<open>clear()\<close>. It is not: on the default
  16 by 2 display, after \<^verbatim>\<open>write("A")\<close> and then \<^verbatim>\<open>clear()\<close> the counter is 1.
\<close>

theorem clear_after_write_ch_idx:
  "map_sum fst ch_idx
     (and_then (init None ''GP0'' ''GP4'' None 16 2 FONT_5x8) (run [Write [65], Clear])) = Inr 1"
  by code_simp

text \<open>
  Whenever \<^verbatim>\<open>_send\<close> returns, it has written exactly \<open>transfer\<close> and changed nothing
  else of the object.
\<close>

lemma set_data_pins_Inr:
  "set_data_pins dp bit_data i bs tr = Inr tr' \<Longrightarrow>
   tr' = tr @ map (\<lambda>b. DATA b (bit_data ! (i + b))) bs"
proof (induction bs arbitrary: tr)
  case Nil
  then show ?case by simp
next
  case (Cons b bs)
  from Cons.prems have
    "set_data_pins dp bit_data i bs (tr @ [DATA b (bit_data ! (i + b))]) = Inr tr'"
    by (simp split: if_splits)
  from Cons.IH [OF this] show ?case by simp
qed

lemma send_chunks_Inr:
  "send_chunks s bit_data d starts tr = Inr tr' \<Longrightarrow>
   tr' = tr @ concat (map (\<lambda>i. map (\<lambda>b. DATA b (bit_data ! (i + b))) [0..<no_pins s]
                                  @ [CLK 1, SLEEP_US d, CLK 0]) starts)"
proof (induction starts arbitrary: tr)
  case Nil
  then show ?case by simp
next
  case (Cons i starts)
  then obtain tr1 where 1: "set_data_pins (data_pins s) bit_data i [0..<no_pins s] tr = Inr tr1"
    and 2: "send_chunks s bit_data d starts (tr1 @ [CLK 1, SLEEP_US d, CLK 0]) = Inr tr'"
    by (auto split: sum.splits)
  from set_data_pins_Inr [OF 1] Cons.IH [OF 2] show ?case by simp
qed

lemma send_Inr_transfer:
  assumes "send s bit_data t d = Inr s'"
  shows "s' = s\<lparr>pins := pins s @
                 transfer (no_pins s) (if t = MSG_TYPE_DATA then 1 else 0) bit_data d\<rparr>"
proof -
  from assms obtain tr' where
    1: "send_chunks s bit_data d (range_step (length bit_data) (no_pins s))
          (pins s @ [RS (if t = MSG_TYPE_DATA then 1 else 0)]) = Inr tr'"
    and 2: "s' = s\<lparr>pins := tr'\<rparr>"
    by (auto simp: send_def Let_def split: if_splits sum.splits)
  from send_chunks_Inr [OF 1] 2 show ?thesis by (simp add: transfer_def)
qed

text \<open>
  Claim C2, amended. \<^verbatim>\<open>clear()\<close> sends the fixed clear-display command \<open>0000 0001\<close> as
  a command and leaves \<^verbatim>\<open>_ch_idx\<close> as it was before the call: when it returns, the object
  is unchanged but for the wires, which have seen register-select 0 and the eight bits, in
  two clocked chunks on 4 data pins and in one on 8.
\<close>

theorem clear_keeps_ch_idx:
  "clear s = Inr s' \<Longrightarrow>
     ch_idx s' = ch_idx s \<and>
     s' = s\<lparr>pins := pins s @ transfer (no_pins s) 0 [0,0,0,0,0,0,0,1] 1530\<rparr> \<and>
     (no_pins s = 4 \<longrightarrow>
        pins s' = pins s @
          [RS 0, DATA 0 0, DATA 1 0, DATA 2 0, DATA 3 0, CLK 1, SLEEP_US 1530, CLK 0,
                 DATA 0 0, DATA 1 0, DATA 2 0, DATA 3 1, CLK 1, SLEEP_US 1530, CLK 0]) \<and>
     (no_pins s = 8 \<longrightarrow>
        pins s' = pins s @
          [RS 0, DATA 0 0, DATA 1 0, DATA 2 0, DATA 3 0, DATA 4 0, DATA 5 0, DATA 6 0, DATA 7 1,
           CLK 1, SLEEP_US 1530, CLK 0])"
proof -
  assume "clear s = Inr s'"
  then have "send s [0,0,0,0,0,0,0,1] MSG_TYPE_CMD DELAY_US = Inr s'" by (simp add: clear_def)
  from send_Inr_transfer [OF this]
  have s': "s' = s\<lparr>pins := pins s @ transfer (no_pins s) 0 [0,0,0,0,0,0,0,1] 1530\<rparr>"
    by (simp add: MSG_TYPE_CMD_def MSG_TYPE_DATA_def DELAY_US_def)
  then have p: "pins s' = pins s @ transfer (no_pins s) 0 [0,0,0,0,0,0,0,1] 1530"
    and c: "ch_idx s' = ch_idx (s\<lparr>pins := pins s @ transfer (no_pins s) 0 [0,0,0,0,0,0,0,1] 1530\<rparr>)"
    by simp_all
  from c have c': "ch_idx s' = ch_idx s" by simp
  have 4: "no_pins s = 4 \<longrightarrow>
        pins s' = pins s @
          [RS 0, DATA 0 0, DATA 1 0, DATA 2 0, DATA 3 0, CLK 1, SLEEP_US 1530, CLK 0,
                 DATA 0 0, DATA 1 0, DATA 2 0, DATA 3 1, CLK 1, SLEEP_US 1530, CLK 0]"
    using p by (simp add: transfer_4)
  have 8: "no_pins s = 8 \<longrightarrow>
        pins s' = pins s @
          [RS 0, DATA 0 0, DATA 1 0, DATA 2 0, DATA 3 0, DATA 4 0, DATA 5 0, DATA 6 0, DATA 7 1,
           CLK 1, SLEEP_US 1530, CLK 0]"
    using p by (simp add: transfer_8)
  from c' s' 4 8 show ?thesis by (intro conjI)
qed

theorem clear_keeps_ch_idx_witness:
  "\<exists>s s' t t'.
     and_then (init None ''GP0'' ''GP4'' None 16 2 FONT_5x8) (invoke (Write [65])) = Inr s \<and>
     clear s = Inr s' \<and> ch_idx s = 1 \<and> ch_idx s' = 1 \<and> no_pins s = 4 \<and>
     pins s' = pins s @
       [RS 0, DATA 0 0, DATA 1 0, DATA 2 0, DATA 3 0, CLK 1, SLEEP_US 1530, CLK 0,
              DATA 0 0, DATA 1 0, DATA 2 0, DATA 3 1, CLK 1, SLEEP_US 1530, CLK 0] \<and>
     t = init_fields [''D7'', ''D6'', ''D5'', ''D4'', ''D3'', ''D2'', ''D1'', ''D0''] ''GP0'' ''GP4''
           None 16 2 (PyTuple [0, 64]) \<and>
     clear t = Inr t' \<and> no_pins t = 8 \<and> ch_idx t' = ch_idx t \<and>
     pins t' = pins t @
       [RS 0, DATA 0 0, DATA 1 0, DATA 2 0, DATA 3 0, DATA 4 0, DATA 5 0, DATA 6 0, DATA 7 1,
        CLK 1, SLEEP_US 1530, CLK 0]"
proof -
  have "case and_then (init None ''GP0'' ''GP4'' None 16 2 FONT_5x8) (invoke (Write [65])) of
          Inl _ \<Rightarrow> False
        | Inr s \<Rightarrow> (case clear s of Inl _ \<Rightarrow> False
                    | Inr s' \<Rightarrow> ch_idx s = 1 \<and> no_pins s = 4)"
    by code_simp
  then obtain s s' where
    1: "and_then (init None ''GP0'' ''GP4'' None 16 2 FONT_5x8) (invoke (Write [65])) = Inr s"
    and 2: "clear s = Inr s'" and 3: "ch_idx s = 1" and 4: "no_pins s = 4"
    by (auto split: sum.splits)
  define t where "t = init_fields [''D7'', ''D6'', ''D5'', ''D4'', ''D3'', ''D2'', ''D1'', ''D0'']
     ''GP0'' ''GP4'' None 16 2 (PyTuple [0, 64])"
  have t8: "no_pins t = 8" "8 \<le> length (data_pins t)" by (simp_all add: t_def init_fields_def)
  from send8_byte [OF t8] obtain t' where 5: "clear t = Inr t'" by (simp add: clear_def)
  from clear_keeps_ch_idx [OF 2] clear_keeps_ch_idx [OF 5] 1 2 3 4 5 t8(1) t_def show ?thesis by auto
qed

subsection \<open>Construction\<close>

lemmas init_defs = init_def init_fields_def init_line_addrs_def set_8bit_mode_def
  set_4bit_mode_def send_def range_step_def and_then_def Let_def upt_rec

text \<open>
  Claim C1 says that construction succeeds for every valid configuration. With 8 data pins
  it raises for each supported height: the first reset transfer sends the four bits
  \<open>0011\<close>, the inner loop of \<^verbatim>\<open>_send\<close> runs over all eight pins, and \<^verbatim>\<open>bit_data[4]\<close> is past
  the end. Four data pins are written, the clock is never pulsed.
\<close>

theorem init_eight_pins_raises:
  "init (Some [p7, p6, p5, p4, p3, p2, p1, p0]) clk rs rw w 1 font =
     Inl (IndexError, [RS 0, DATA 0 0, DATA 1 0, DATA 2 1, DATA 3 1]) \<and>
   init (Some [p7, p6, p5, p4, p3, p2, p1, p0]) clk rs rw w 2 font =
     Inl (IndexError, [RS 0, DATA 0 0, DATA 1 0, DATA 2 1, DATA 3 1]) \<and>
   init (Some [p7, p6, p5, p4, p3, p2, p1, p0]) clk rs rw w 4 font =
     Inl (IndexError, [RS 0, DATA 0 0, DATA 1 0, DATA 2 1, DATA 3 1])"
  by (simp add: init_defs consts_defs)

text \<open>
  Claim C3 says that for height 1 the line addresses are the one-entry sequence \<open>[0x00]\<close>.
  \<^verbatim>\<open>_init_line_addrs\<close> returns the integer 0 there, for any width.
\<close>

theorem init_line_addrs_height_1: "init_line_addrs w 1 = Inr (PyInt 0)"
  by (simp add: init_line_addrs_def consts_defs)

text \<open>
  Claim C4 says that the font passed to the constructor reaches the function-set command.
  Constructing the default 16 by 2 display with \<^verbatim>\<open>font=FONT_5x10\<close>, the last fifteen events
  are the function-set command \<open>0010 1011\<close>: its font bit, the second of the low nibble, is 0.
\<close>

theorem init_font_5x10_function_set:
  "map_sum fst (\<lambda>s. drop 47 (pins s)) (init None ''GP0'' ''GP4'' None 16 2 FONT_5x10) =
     Inr [RS 0, DATA 0 0, DATA 1 0, DATA 2 1, DATA 3 0, CLK 1, SLEEP_US 1530, CLK 0,
                DATA 0 1, DATA 1 0, DATA 2 1, DATA 3 1, CLK 1, SLEEP_US 1530, CLK 0]"
  by code_simp

text \<open>
  Claim C5 says that the reset command is issued three times whatever the pin count. With
  8 data pins on a 16 by 2 display the constructor raises inside the first reset transfer,
  before any clock pulse: no reset command reaches the controller.
\<close>

theorem init_eight_pins_no_reset:
  "init (Some [''GP8'', ''GP30'', ''GP31'', ''GP3'', ''GP9'', ''GP10'', ''GP11'', ''GP12''])
      ''GP0'' ''GP4'' None 16 2 FONT_5x8 =
     Inl (IndexError, [RS 0, DATA 0 0, DATA 1 0, DATA 2 1, DATA 3 1])"
  by code_simp

text \<open>
  Claim C9 says that a pin count other than 4 or 8 raises the configuration error. With 3
  data pins the constructor raises IndexError in the second chunk of the first reset
  transfer, and never reaches its own check of the pin count.
\<close>

theorem init_three_pins_raises:
  "init (Some [''GP8'', ''GP30'', ''GP31'']) ''GP0'' ''GP4'' None 16 2 FONT_5x8 =
     Inl (IndexError,
          [RS 0, DATA 0 0, DATA 1 0, DATA 2 1, CLK 1, SLEEP_US 1530, CLK 0, DATA 0 1])"
  by code_simp

subsection \<open>Writing text\<close>

text \<open>
  Claim C7 says that a row-address command is issued whenever the counter is at the start
  of a row. On a 16 by 1 display, which the constructor builds, \<^verbatim>\<open>write("A")\<close> raises
  TypeError at the first character: the line-address table is the integer 0 and cannot be
  subscripted.
\<close>

theorem write_height_1_raises:
  "map_sum fst line_addr (init None ''GP0'' ''GP4'' None 16 1 FONT_5x8) = Inr (PyInt 0) \<and>
   map_sum fst ch_idx
     (and_then (init None ''GP0'' ''GP4'' None 16 1 FONT_5x8) (invoke (Write [65]))) =
   Inl TypeError"
  by code_simp

subsection \<open>Construction on four pins\<close>

lemma transfer_4_nibble:
  "transfer 4 r [b3,b2,b1,b0] d =
     [RS r, DATA 0 b3, DATA 1 b2, DATA 2 b1, DATA 3 b0, CLK 1, SLEEP_US d, CLK 0]"
  by (simp add: transfer_def range_step_def upt_rec)

lemma send4_nibble:
  assumes "no_pins s = 4" "4 \<le> length (data_pins s)"
  shows "send s [b3,b2,b1,b0] t d =
    Inr (s\<lparr>pins := pins s @ transfer 4 (if t = MSG_TYPE_DATA then 1 else 0) [b3,b2,b1,b0] d\<rparr>)"
proof -
  have l: "length [b3,b2,b1,b0] = 4" by simp
  have "(4::nat) dvd 4" by simp
  then have "no_pins s dvd length [b3,b2,b1,b0]" unfolding l assms(1) .
  from send_ok [OF _ _ this, of t d] assms show ?thesis by simp
qed

lemma send4_byte_transfer:
  assumes "no_pins s = 4" "4 \<le> length (data_pins s)"
  shows "send s [b7,b6,b5,b4,b3,b2,b1,b0] t d =
    Inr (s\<lparr>pins := pins s @
           transfer 4 (if t = MSG_TYPE_DATA then 1 else 0) [b7,b6,b5,b4,b3,b2,b1,b0] d\<rparr>)"
  using send4_byte [OF assms] by (simp only: transfer_4)

lemma set_8bit_mode_4:
  assumes "no_pins s = 4" "4 \<le> length (data_pins s)"
  shows "set_8bit_mode s =
    Inr (s\<lparr>pins := pins s @ transfer 4 0 [0,0,1,1] DELAY_US @ transfer 4 0 [0,0,1,1] DELAY_US
                 @ transfer 4 0 [0,0,1,1] DELAY_US,
           mode := MODE_8BIT\<rparr>)"
  using assms
  by (simp add: set_8bit_mode_def and_then_def upt_rec send4_nibble MSG_TYPE_CMD_def MSG_TYPE_DATA_def)

lemma set_4bit_mode_4:
  assumes "no_pins s = 4" "4 \<le> length (data_pins s)" "mode s = MODE_8BIT"
  shows "set_4bit_mode s = Inr (s\<lparr>pins := pins s @ transfer 4 0 [0,0,1,0] DELAY_US\<rparr>)"
  using assms
  by (simp add: set_4bit_mode_def and_then_def send4_nibble MSG_TYPE_CMD_def MSG_TYPE_DATA_def)

lemma clear_4:
  assumes "no_pins s = 4" "4 \<le> length (data_pins s)"
  shows "clear s = Inr (s\<lparr>pins := pins s @ transfer 4 0 [0,0,0,0,0,0,0,1] DELAY_US\<rparr>)"
  using assms
  by (simp add: clear_def send4_byte_transfer MSG_TYPE_CMD_def MSG_TYPE_DATA_def)

lemma set_function_4:
  assumes "no_pins s = 4" "4 \<le> length (data_pins s)"
  shows "set_function s n f =
           Inr (s\<lparr>pins := pins s @ transfer 4 0 [0,0,1,0,n,f,1,1] DELAY_US\<rparr>)"
  using assms
  by (simp add: set_function_def send4_byte_transfer MSG_TYPE_CMD_def MSG_TYPE_DATA_def)

text \<open>
  Every 4-pin configuration of a supported height constructs. The wires see three reset
  commands, one switch to 4-bit mode, the clear command and the function-set command, whose
  font bit is 0 whatever \<open>font\<close> was passed.
\<close>

lemma init_four_pins:
  assumes "h = 1 \<or> h = 2 \<or> h = 4"
  shows "init (Some [p3, p2, p1, p0]) clk rs rw w h font =
    Inr ((init_fields [p3, p2, p1, p0] clk rs rw w h
            (if h = 1 then PyInt 0 else if h = 2 then PyTuple [0x00, 0x40]
             else PyTuple [0x00, 0x40, 0x14, 0x54]))
         \<lparr>mode := MODE_8BIT,
          pins := transfer 4 0 [0,0,1,1] DELAY_US @ transfer 4 0 [0,0,1,1] DELAY_US
                  @ transfer 4 0 [0,0,1,1] DELAY_US @ transfer 4 0 [0,0,1,0] DELAY_US
                  @ transfer 4 0 [0,0,0,0,0,0,0,1] DELAY_US
                  @ transfer 4 0 [0,0,1,0,(if h = 1 then 0 else 1),0,1,1] DELAY_US\<rparr>)"
proof -
  define la where "la = (if h = 1 then PyInt 0 else if h = 2 then PyTuple [0x00, 0x40]
             else PyTuple [0x00, 0x40, 0x14, 0x54])"
  define s0 where "s0 = init_fields [p3, p2, p1, p0] clk rs rw w h la"
  define n :: int where "n = (if h = 1 then 0 else 1)"
  define s1 where "s1 = s0\<lparr>pins := transfer 4 0 [0,0,1,1] DELAY_US @ transfer 4 0 [0,0,1,1] DELAY_US
                 @ transfer 4 0 [0,0,1,1] DELAY_US, mode := MODE_8BIT\<rparr>"
  define s2 where "s2 = s1\<lparr>pins := pins s1 @ transfer 4 0 [0,0,1,0] DELAY_US\<rparr>"
  define s3 where "s3 = s2\<lparr>pins := pins s2 @ transfer 4 0 [0,0,0,0,0,0,0,1] DELAY_US\<rparr>"
  define s4 where "s4 = s3\<lparr>pins := pins s3 @ transfer 4 0 [0,0,1,0,n,0,1,1] DELAY_US\<rparr>"
  have la: "init_line_addrs w h = Inr la"
    using assms by (auto simp: init_line_addrs_def la_def DDRAM0_START_def DDRAM1_START_def)
  have f0: "no_pins s0 = 4" "4 \<le> length (data_pins s0)" "pins s0 = []" "height s0 = h"
    by (simp_all add: s0_def init_fields_def)
  have f1: "no_pins s1 = 4" "4 \<le> length (data_pins s1)" "mode s1 = MODE_8BIT"
    using f0 by (simp_all add: s1_def)
  have f2: "no_pins s2 = 4" "4 \<le> length (data_pins s2)"
    using f1 by (simp_all add: s2_def)
  have f3: "no_pins s3 = 4" "4 \<le> length (data_pins s3)" "height s3 = h"
    using f2 f0 by (simp_all add: s3_def s2_def s1_def)
  have 1: "set_8bit_mode s0 = Inr s1"
    using set_8bit_mode_4 [OF f0(1,2)] f0(3) by (simp add: s1_def)
  have 2: "set_4bit_mode s1 = Inr s2"
    using set_4bit_mode_4 [OF f1] by (simp add: s2_def)
  have 3: "clear s2 = Inr s3"
    using clear_4 [OF f2] by (simp add: s3_def)
  have 4: "set_function s3 n 0 = Inr s4"
    using set_function_4 [OF f3(1,2)] by (simp add: s4_def)
  have "init (Some [p3, p2, p1, p0]) clk rs rw w h font =
          (if height s3 = 1 then set_function s3 0 0 else set_function s3 1 0)"
    by (simp add: init_def la s0_def [symmetric] and_then_def 1 2 3 f1)
  also have "\<dots> = set_function s3 n 0" by (simp add: f3 n_def)
  also note 4
  finally show ?thesis
    by (simp add: s4_def s3_def s2_def s1_def s0_def la_def n_def f0)
qed

lemma init_default_pins:
  "init None clk rs rw w h font = init (Some [''GP8'', ''GP30'', ''GP31'', ''GP3'']) clk rs rw w h font"
  by (simp add: init_def)

text \<open>The constructor never reads \<^verbatim>\<open>font\<close>.\<close>

lemma init_ignores_font:
  "init host_pins clk rs rw w h font = init host_pins clk rs rw w h font'"
  by (simp add: init_def)

text \<open>An unsupported height raises the configuration error before any pin is written.\<close>

lemma init_bad_height:
  "h \<noteq> 1 \<Longrightarrow> h \<noteq> 2 \<Longrightarrow> h \<noteq> 4 \<Longrightarrow>
   init host_pins clk rs rw w h font =
     Inl (PyException ''No DDRAM -> pixel mapping for this ratio!'', [])"
  by (simp add: init_def init_line_addrs_def)

lemma init_line_addrs_heights_2_4:
  "init_line_addrs w 2 = Inr (PyTuple [0x00, 0x40]) \<and>
   init_line_addrs w 4 = Inr (PyTuple [0x00, 0x40, 0x14, 0x54])"
  by (simp add: init_line_addrs_def DDRAM0_START_def DDRAM1_START_def)

lemma init_four_pins_usable:
  assumes "h = 2 \<or> h = 4" "0 < w" "init (Some [p3, p2, p1, p0]) clk rs rw w h font = Inr s"
  shows "usable s \<and> width s = w \<and> height s = h \<and> no_pins s = 4"
proof -
  from assms(1) have "h = 1 \<or> h = 2 \<or> h = 4" by blast
  from init_four_pins [OF this, of p3 p2 p1 p0 clk rs rw w font] assms(3) obtain tr la where
    s: "s = (init_fields [p3, p2, p1, p0] clk rs rw w h la)\<lparr>mode := MODE_8BIT, pins := tr\<rparr>"
    and la: "la = (if h = 1 then PyInt 0 else if h = 2 then PyTuple [0x00, 0x40]
             else PyTuple [0x00, 0x40, 0x14, 0x54])"
    by simp
  have f: "no_pins s = 4" "length (data_pins s) = 4" "width s = w" "height s = h"
    "line_addr s = la" "ch_idx s = 0"
    unfolding s by (simp_all add: init_fields_def)
  have d: "(4::nat) dvd 8" by presburger
  from assms(1,2) have "0 < w * h" by auto
  with assms(1,2) d have "usable s" unfolding usable_def f la by auto
  with f show ?thesis by simp
qed

lemma set_data_pins_fails:
  "\<exists>b \<in> set bs. \<not> i + b < length bit_data \<Longrightarrow>
   \<exists>e tr'. set_data_pins dp bit_data i bs tr = Inl (e, tr')"
  by (induction bs arbitrary: tr) auto

lemma send_nibble_8_pins_fails:
  assumes "no_pins s = 8"
  shows "\<exists>e tr. send s [b3,b2,b1,b0] t d = Inl (e, tr)"
proof -
  define tr0 where "tr0 = pins s @ [RS (if t = MSG_TYPE_DATA then 1 else 0)]"
  have r: "range_step (length [b3,b2,b1,b0]) (no_pins s) = [0]"
    unfolding assms by (simp add: range_step_def upt_rec)
  have "\<exists>b \<in> set [0..<8]. \<not> 0 + b < length [b3,b2,b1,b0]"
    by (rule bexI [of _ 4]) simp_all
  from set_data_pins_fails [OF this]
  obtain e tr' where "set_data_pins (data_pins s) [b3,b2,b1,b0] 0 [0..<8] tr0 = Inl (e, tr')"
    by blast
  then have "send_chunks s [b3,b2,b1,b0] d (range_step (length [b3,b2,b1,b0]) (no_pins s)) tr0
               = Inl (e, tr')"
    unfolding r by (simp add: assms)
  then have "send s [b3,b2,b1,b0] t d = Inl (e, tr')"
    unfolding send_def Let_def tr0_def [symmetric] using assms by simp
  then show ?thesis by blast
qed

lemma set_8bit_mode_8_pins_fails:
  assumes "no_pins s = 8"
  shows "\<exists>e tr. set_8bit_mode s = Inl (e, tr)"
proof -
  from send_nibble_8_pins_fails [OF assms] obtain e tr where
    "send s [0,0,1,1] MSG_TYPE_CMD DELAY_US = Inl (e, tr)" by blast
  then show ?thesis by (simp add: set_8bit_mode_def and_then_def upt_rec)
qed

lemma set_8bit_loop_no_pins:
  "set_8bit_loop is s = Inr s' \<Longrightarrow> no_pins s' = no_pins s"
proof (induction "is" arbitrary: s)
  case Nil
  then show ?case by simp
next
  case (Cons i rest)
  then obtain s1 where 1: "send s [0,0,1,1] MSG_TYPE_CMD DELAY_US = Inr s1"
    and 2: "set_8bit_loop rest s1 = Inr s'"
    by (auto split: sum.splits)
  from send_frame [OF 1] have "no_pins s1 = no_pins (s\<lparr>pins := pins s1\<rparr>)" by simp
  with Cons.IH [OF 2] show ?case by simp
qed

lemma set_8bit_mode_no_pins:
  assumes "set_8bit_mode s = Inr s'" shows "no_pins s' = no_pins s"
proof -
  from assms obtain s1 where 1: "set_8bit_loop [0..<3] s = Inr s1"
    and 2: "s' = s1\<lparr>mode := MODE_8BIT\<rparr>"
    by (auto simp: set_8bit_mode_def and_then_def split: sum.splits)
  from set_8bit_loop_no_pins [OF 1] 2 show ?thesis by simp
qed

text \<open>No configuration with a pin count other than 4 constructs.\<close>

lemma init_not_four_pins_fails:
  assumes "length hp \<noteq> 4"
  shows "\<exists>e tr. init (Some hp) clk rs rw w h font = Inl (e, tr)"
proof (cases "init_line_addrs w h")
  case (Inl e)
  then show ?thesis by (simp add: init_def)
next
  case (Inr la)
  define s0 where "s0 = init_fields hp clk rs rw w h la"
  have n0: "no_pins s0 = length hp" by (simp add: s0_def init_fields_def)
  show ?thesis
  proof (cases "set_8bit_mode s0")
    case (Inl x)
    with Inr show ?thesis
      by (cases x) (simp add: init_def s0_def [symmetric] and_then_def)
  next
    case s1: (Inr s1)
    from set_8bit_mode_no_pins [OF s1] n0 have n1: "no_pins s1 = length hp" by simp
    have "length hp \<noteq> 8"
    proof
      assume "length hp = 8"
      with n0 have "no_pins s0 = 8" by simp
      from set_8bit_mode_8_pins_fails [OF this] s1 show False by simp
    qed
    with assms n1 Inr s1 show ?thesis
      by (simp add: init_def s0_def [symmetric] and_then_def)
  qed
qed

lemma init_succeeds_iff:
  "(\<exists>s. init (Some hp) clk rs rw w h font = Inr s) \<longleftrightarrow>
   length hp = 4 \<and> (h = 1 \<or> h = 2 \<or> h = 4)"
proof
  assume "\<exists>s. init (Some hp) clk rs rw w h font = Inr s"
  then obtain s where s: "init (Some hp) clk rs rw w h font = Inr s" by blast
  have "length hp = 4"
  proof (rule ccontr)
    assume "length hp \<noteq> 4"
    from init_not_four_pins_fails [OF this, of clk rs rw w h font] s show False by auto
  qed
  moreover have "h = 1 \<or> h = 2 \<or> h = 4"
  proof (rule ccontr)
    assume "\<not> (h = 1 \<or> h = 2 \<or> h = 4)"
    then have "init (Some hp) clk rs rw w h font =
      Inl (PyException ''No DDRAM -> pixel mapping for this ratio!'', [])"
      by (intro init_bad_height) simp_all
    with s show False by simp
  qed
  ultimately show "length hp = 4 \<and> (h = 1 \<or> h = 2 \<or> h = 4)" by simp
next
  assume a: "length hp = 4 \<and> (h = 1 \<or> h = 2 \<or> h = 4)"
  then obtain p3 p2 p1 p0 where "hp = [p3, p2, p1, p0]"
    by (auto simp: length_Suc_conv numeral_eq_Suc)
  with a init_four_pins [of h p3 p2 p1 p0 clk rs rw w font]
  show "\<exists>s. init (Some hp) clk rs rw w h font = Inr s" by simp
qed

subsection \<open>Writing text on a sound object\<close>

lemma bin_digits_length: "n < 2 ^ k \<Longrightarrow> 0 < k \<Longrightarrow> length (bin_digits n) \<le> k"
proof (induction n arbitrary: k rule: bin_digits.induct)
  case (1 n)
  show ?case
  proof (cases "n < 2")
    case True
    then have "bin_digits n = [int n]" by (simp add: bin_digits.simps)
    with 1(3) show ?thesis by simp
  next
    case False
    then have eq: "bin_digits n = bin_digits (n div 2) @ [int (n mod 2)]"
      by (subst bin_digits.simps) simp
    from 1(3) obtain j where k: "k = Suc j" by (cases k) auto
    from False 1(2) k have j: "0 < j" by (cases j) auto
    from 1(2) k have "n div 2 < 2 ^ j" by auto
    from 1(1) [OF False this j] have "length (bin_digits (n div 2)) \<le> j" .
    with eq k show ?thesis by simp
  qed
qed

lemma format_08b_length: "ch < 256 \<Longrightarrow> length (format_08b ch) = 8"
proof -
  assume "ch < 256"
  then have "ch < 2 ^ 8" by simp
  then have "length (bin_digits ch) \<le> 8" by (rule bin_digits_length) simp
  then show ?thesis by (simp add: format_08b_def Let_def)
qed

lemma ddram_data_length: "length (ddram_data a) = 8"
  by (simp add: ddram_data_def addr_bits_length)

lemma getitem_tuple:
  "0 \<le> i \<Longrightarrow> i < int (length xs) \<Longrightarrow> getitem (PyTuple xs) i = Inr (xs ! nat i)"
  by (simp add: getitem_def Let_def)

lemma int_div_less:
  assumes "a < b * c" "0 < c"
  shows "a div c < (b::int)"
proof -
  have "0 \<le> a mod c" using assms(2) by simp
  moreover have "a = c * (a div c) + a mod c" by simp
  ultimately have "c * (a div c) \<le> a" by linarith
  with assms(1) have "c * (a div c) < c * b" by (simp add: mult.commute)
  with assms(2) show ?thesis by (simp add: mult_less_cancel_left_pos)
qed

text \<open>One round of the loop on a usable object, for a character below 256.\<close>

lemma write_char_ok:
  assumes u: "usable s" and la: "line_addr s = PyTuple addrs" and c: "ch < 256"
  shows "write_char s ch =
    Inr (s\<lparr>pins := pins s @
             (if ch_idx s mod width s = 0
              then transfer (no_pins s) 0 (ddram_data (addrs ! nat (ch_idx s div width s))) DELAY_US
              else []) @
             transfer (no_pins s) 1 (format_08b ch) DELAY_US,
           ch_idx := (ch_idx s + 1) mod (width s * height s)\<rparr>)"
proof -
  from u have n: "0 < no_pins s" "no_pins s \<le> length (data_pins s)" "no_pins s dvd 8"
    and w: "0 < width s" and h: "0 < height s"
    and i: "0 \<le> ch_idx s" "ch_idx s < width s * height s"
    by (auto simp: usable_def)
  from u la have len: "height s \<le> int (length addrs)" by (simp add: usable_def)
  from w h have wh: "width s * height s \<noteq> 0" by simp
  have row0: "0 \<le> ch_idx s div width s" using i(1) w by (simp add: pos_imp_zdiv_nonneg_iff)
  have "ch_idx s div width s < height s"
    using i(2) w by (intro int_div_less) (simp_all add: mult.commute)
  with len have row1: "ch_idx s div width s < int (length addrs)" by simp
  have data: "\<And>s1. no_pins s1 = no_pins s \<Longrightarrow> data_pins s1 = data_pins s \<Longrightarrow>
      send s1 (format_08b ch) MSG_TYPE_DATA DELAY_US =
        Inr (s1\<lparr>pins := pins s1 @ transfer (no_pins s) 1 (format_08b ch) DELAY_US\<rparr>)"
    using n c send_ok [where msg_type = MSG_TYPE_DATA and bit_data = "format_08b ch" and d = DELAY_US]
    by (simp add: format_08b_length)
  have cmd: "\<And>a. send s (ddram_data a) MSG_TYPE_CMD DELAY_US =
        Inr (s\<lparr>pins := pins s @ transfer (no_pins s) 0 (ddram_data a) DELAY_US\<rparr>)"
    using n send_ok [of s _ MSG_TYPE_CMD DELAY_US]
    by (simp add: ddram_data_length consts_defs)
  show ?thesis
  proof (cases "ch_idx s mod width s = 0")
    case True
    with w wh la row0 row1 show ?thesis
      by (simp add: write_char_def and_then_def getitem_tuple set_ddram_def cmd data)
  next
    case False
    with w wh show ?thesis
      by (simp add: write_char_def and_then_def data)
  qed
qed

lemma write_char_usable:
  assumes u: "usable s" and c: "ch < 256" and r: "write_char s ch = Inr s'"
  shows "usable s' \<and> width s' = width s \<and> height s' = height s \<and> line_addr s' = line_addr s
         \<and> no_pins s' = no_pins s"
proof -
  from u obtain addrs where la: "line_addr s = PyTuple addrs"
    by (auto simp: usable_def split: pyval.splits)
  from write_char_ok [OF u la c] r obtain tr where
    s': "s' = s\<lparr>pins := tr, ch_idx := (ch_idx s + 1) mod (width s * height s)\<rparr>"
    by simp
  from u have "0 < width s * height s" by (simp add: usable_def)
  then have i: "0 \<le> (ch_idx s + 1) mod (width s * height s)"
            "(ch_idx s + 1) mod (width s * height s) < width s * height s"
    by simp_all
  have f: "width s' = width s" "height s' = height s" "line_addr s' = line_addr s"
    "no_pins s' = no_pins s" "data_pins s' = data_pins s"
    "ch_idx s' = (ch_idx s + 1) mod (width s * height s)"
    unfolding s' by simp_all
  from u i have "usable s'" unfolding usable_def f by simp
  with f show ?thesis by simp
qed

lemma write_loop_ok:
  "usable s \<Longrightarrow> \<forall>c \<in> set buf. c < 256 \<Longrightarrow>
   \<exists>s'. write_loop buf s = Inr s' \<and> usable s' \<and>
        width s' = width s \<and> height s' = height s \<and>
        ch_idx s' = (ch_idx s + int (length buf)) mod (width s * height s)"
proof (induction buf arbitrary: s)
  case Nil
  then show ?case by (simp add: usable_def)
next
  case (Cons ch rest)
  from Cons.prems(1) obtain addrs where la: "line_addr s = PyTuple addrs"
    by (auto simp: usable_def split: pyval.splits)
  from Cons.prems(2) have c: "ch < 256" by simp
  from write_char_ok [OF Cons.prems(1) la c] obtain s1 where
    1: "write_char s ch = Inr s1" and i1: "ch_idx s1 = (ch_idx s + 1) mod (width s * height s)"
    by simp
  from write_char_usable [OF Cons.prems(1) c 1] have u1: "usable s1"
    and f: "width s1 = width s" "height s1 = height s" by simp_all
  from Cons.prems(2) have "\<forall>c \<in> set rest. c < 256" by simp
  from Cons.IH [OF u1 this] obtain s' where
    2: "write_loop rest s1 = Inr s'" and u': "usable s'"
    and f': "width s' = width s1" "height s' = height s1"
    and i': "ch_idx s' = (ch_idx s1 + int (length rest)) mod (width s1 * height s1)"
    by blast
  have "ch_idx s' = (ch_idx s + int (length (ch # rest))) mod (width s * height s)"
    unfolding i' i1 f by (simp add: mod_add_left_eq add.assoc)
  with 1 2 u' f f' show ?case by simp
qed

lemma home_ok:
  assumes "0 < no_pins s" "no_pins s \<le> length (data_pins s)" "no_pins s dvd 8"
  shows "home s = Inr (s\<lparr>pins := pins s @ transfer (no_pins s) 0 [0,0,0,0,0,0,1,0] DELAY_US\<rparr>)"
proof -
  have l: "length [0,0,0,0,0,0,1,0::int] = 8" by simp
  have "no_pins s dvd length [0,0,0,0,0,0,1,0::int]" unfolding l by (rule assms(3))
  from send_ok [OF assms(1,2) this, of MSG_TYPE_CMD DELAY_US] show ?thesis
    by (simp add: home_def MSG_TYPE_CMD_def MSG_TYPE_DATA_def)
qed

text \<open>
  \<^verbatim>\<open>write\<close> on an object whose geometry and line table are sound, whatever its counter was:
  it returns, and the counter is the number of characters modulo \<open>width * height\<close>.
\<close>

lemma write_buf_ok:
  assumes u: "usable (s\<lparr>ch_idx := 0\<rparr>)" and c: "\<forall>c \<in> set buf. c < 256"
  shows "\<exists>s'. write_buf s buf = Inr s' \<and> usable s' \<and>
              ch_idx s' = int (length buf) mod (width s * height s)"
proof -
  from u have n: "0 < no_pins s" "no_pins s \<le> length (data_pins s)" "no_pins s dvd 8"
    by (simp_all add: usable_def)
  define s1 where "s1 = s\<lparr>pins := pins s @ transfer (no_pins s) 0 [0,0,0,0,0,0,1,0] DELAY_US\<rparr>"
  have h: "home s = Inr s1" unfolding s1_def using n by (rule home_ok)
  have f: "no_pins (s1\<lparr>ch_idx := 0\<rparr>) = no_pins (s\<lparr>ch_idx := 0\<rparr>)"
    "data_pins (s1\<lparr>ch_idx := 0\<rparr>) = data_pins (s\<lparr>ch_idx := 0\<rparr>)"
    "width (s1\<lparr>ch_idx := 0\<rparr>) = width (s\<lparr>ch_idx := 0\<rparr>)"
    "height (s1\<lparr>ch_idx := 0\<rparr>) = height (s\<lparr>ch_idx := 0\<rparr>)"
    "line_addr (s1\<lparr>ch_idx := 0\<rparr>) = line_addr (s\<lparr>ch_idx := 0\<rparr>)"
    "ch_idx (s1\<lparr>ch_idx := 0\<rparr>) = ch_idx (s\<lparr>ch_idx := 0\<rparr>)"
    by (simp_all add: s1_def)
  from u have u1: "usable (s1\<lparr>ch_idx := 0\<rparr>)" unfolding usable_def f .
  from write_loop_ok [OF u1 c] obtain s' where
    "write_loop buf (s1\<lparr>ch_idx := 0\<rparr>) = Inr s'" "usable s'"
    "ch_idx s' = (ch_idx (s1\<lparr>ch_idx := 0\<rparr>) + int (length buf))
                   mod (width (s1\<lparr>ch_idx := 0\<rparr>) * height (s1\<lparr>ch_idx := 0\<rparr>))"
    by blast
  with h show ?thesis by (simp add: write_buf_def and_then_def s1_def)
qed

text \<open>After exactly \<open>width * height\<close> characters the counter is back at 0.\<close>

lemma write_buf_full_screen:
  assumes "usable (s\<lparr>ch_idx := 0\<rparr>)" "\<forall>c \<in> set buf. c < 256"
    "int (length buf) = width s * height s"
  shows "\<exists>s'. write_buf s buf = Inr s' \<and> usable s' \<and> ch_idx s' = 0"
  using write_buf_ok [OF assms(1,2)] assms(3) by simp

text \<open>
  With the counter at 0, the next character first sends the set-DDRAM-address command for
  the base address of row 0, then its data byte.
\<close>

lemma write_char_row_0:
  assumes "usable s" "line_addr s = PyTuple addrs" "ch < 256" "ch_idx s = 0"
  shows "write_char s ch =
    Inr (s\<lparr>pins := pins s @ transfer (no_pins s) 0 (ddram_data (addrs ! 0)) DELAY_US @
                  transfer (no_pins s) 1 (format_08b ch) DELAY_US,
           ch_idx := 1 mod (width s * height s)\<rparr>)"
  using write_char_ok [OF assms(1,2,3)] assms(4) by simp

subsection \<open>The clock line when an operation raises\<close>

lemma clk_after_Inl: "clk_after (Inl (e, tr)) = clk_level tr"
  by (simp add: clk_after_def)

lemma low_or_trans: "low_or l0 l1 \<Longrightarrow> low_or l1 l2 \<Longrightarrow> low_or l0 l2"
  by (auto simp: low_or_def)

lemma low_or_refl: "low_or l l"
  by (simp add: low_or_def)

lemma set_data_pins_clk_raise:
  "set_data_pins dp bit_data i bs tr = Inl (e, tr') \<Longrightarrow> clk_level tr' = clk_level tr"
  by (induction bs arbitrary: tr) (auto simp: clk_level_append split: if_splits)

lemma send_chunks_clk_raise:
  "send_chunks s bit_data d starts tr = Inl (e, tr') \<Longrightarrow> low_or (clk_level tr) (clk_level tr')"
proof (induction starts arbitrary: tr)
  case Nil
  then show ?case by simp
next
  case (Cons i starts)
  show ?case
  proof (cases "set_data_pins (data_pins s) bit_data i [0..<no_pins s] tr")
    case (Inl x)
    with Cons.prems have "set_data_pins (data_pins s) bit_data i [0..<no_pins s] tr = Inl (e, tr')"
      by simp
    from set_data_pins_clk_raise [OF this] show ?thesis by (simp add: low_or_def)
  next
    case (Inr tr1)
    with Cons.prems have
      "send_chunks s bit_data d starts (tr1 @ [CLK 1, SLEEP_US d, CLK 0]) = Inl (e, tr')"
      by simp
    from Cons.IH [OF this] show ?thesis by (simp add: low_or_def clk_level_append)
  qed
qed

lemma send_low_or: "low_or (clk_level (pins s)) (clk_after (send s bit_data t d))"
proof (cases "send s bit_data t d")
  case (Inl x)
  obtain e tr where x: "x = (e, tr)" by (cases x)
  define tr0 where "tr0 = pins s @ [RS (if t = MSG_TYPE_DATA then 1 else 0)]"
  have l0: "clk_level tr0 = clk_level (pins s)" by (simp add: tr0_def clk_level_append)
  from Inl x have "tr = tr0 \<or>
      send_chunks s bit_data d (range_step (length bit_data) (no_pins s)) tr0 = Inl (e, tr)"
    by (auto simp: send_def Let_def tr0_def split: if_splits sum.splits)
  then have "low_or (clk_level tr0) (clk_level tr)"
    by (auto simp: low_or_refl dest: send_chunks_clk_raise)
  with Inl x l0 show ?thesis by (simp add: clk_after_def)
next
  case (Inr s')
  define tr0 where "tr0 = pins s @ [RS (if t = MSG_TYPE_DATA then 1 else 0)]"
  have l0: "clk_level tr0 = clk_level (pins s)" by (simp add: tr0_def clk_level_append)
  from Inr obtain tr' where
    1: "send_chunks s bit_data d (range_step (length bit_data) (no_pins s)) tr0 = Inr tr'"
    and 2: "s' = s\<lparr>pins := tr'\<rparr>"
    by (auto simp: send_def Let_def tr0_def split: if_splits sum.splits)
  from send_chunks_clk [OF 1] 2 l0 Inr show ?thesis
    by (auto simp: clk_after_def low_or_def)
qed

lemma and_then_low_or:
  assumes "low_or l0 (clk_after r)"
    and "\<And>s1. r = Inr s1 \<Longrightarrow> low_or (clk_level (pins s1)) (clk_after (f s1))"
  shows "low_or l0 (clk_after (and_then r f))"
proof (cases r)
  case (Inl x)
  with assms(1) show ?thesis by (simp add: and_then_def clk_after_def)
next
  case (Inr s1)
  with assms(1) have "low_or l0 (clk_level (pins s1))" by (simp add: clk_after_def)
  from low_or_trans [OF this assms(2) [OF Inr]] Inr show ?thesis by (simp add: and_then_def)
qed

lemma set_8bit_loop_low_or:
  "low_or (clk_level (pins s)) (clk_after (set_8bit_loop is s))"
proof (induction "is" arbitrary: s)
  case Nil
  then show ?case by (simp add: clk_after_def low_or_refl)
next
  case (Cons i rest)
  have "set_8bit_loop (i # rest) s =
          and_then (send s [0,0,1,1] MSG_TYPE_CMD DELAY_US) (set_8bit_loop rest)"
    by (simp add: and_then_def)
  then show ?case using send_low_or Cons.IH by (simp add: and_then_low_or)
qed

lemma set_8bit_mode_low_or:
  "low_or (clk_level (pins s)) (clk_after (set_8bit_mode s))"
  unfolding set_8bit_mode_def
  by (rule and_then_low_or [OF set_8bit_loop_low_or]) (simp add: clk_after_def low_or_refl)

lemma set_4bit_mode_low_or:
  "low_or (clk_level (pins s)) (clk_after (set_4bit_mode s))"
  unfolding set_4bit_mode_def
proof (rule and_then_low_or)
  show "low_or (clk_level (pins s))
          (clk_after (if mode s \<noteq> MODE_8BIT then set_8bit_mode s else Inr s))"
    using set_8bit_mode_low_or by (simp add: clk_after_def low_or_refl)
qed (rule send_low_or)

lemma write_char_low_or:
  "low_or (clk_level (pins s)) (clk_after (write_char s ch))"
proof (cases "width s = 0")
  case True
  then show ?thesis by (simp add: write_char_def clk_after_def low_or_refl)
next
  case False
  have a: "low_or (clk_level (pins s))
     (clk_after (if ch_idx s mod width s = 0
           then (case getitem (line_addr s) (ch_idx s div width s) of
                   Inl e \<Rightarrow> Inl (e, pins s)
                 | Inr a \<Rightarrow> set_ddram s a)
           else Inr s))"
  proof (cases "ch_idx s mod width s = 0")
    case True
    show ?thesis
    proof (cases "getitem (line_addr s) (ch_idx s div width s)")
      case (Inl e)
      with True show ?thesis by (simp add: clk_after_def low_or_refl)
    next
      case (Inr a)
      with True send_low_or [of s "ddram_data a" MSG_TYPE_CMD DELAY_US]
      show ?thesis by (simp add: set_ddram_def)
    qed
  next
    case False
    then show ?thesis by (simp add: clk_after_def low_or_refl)
  qed
  have b: "\<And>s2. low_or (clk_level (pins s2))
     (clk_after (if width s2 * height s2 = 0 then Inl (ZeroDivisionError, pins s2)
                 else Inr (s2\<lparr>ch_idx := (ch_idx s2 + 1) mod (width s2 * height s2)\<rparr>)))"
    by (simp add: clk_after_def low_or_refl)
  from False show ?thesis
    unfolding write_char_def
    by (simp only: if_False) (intro and_then_low_or a send_low_or b)
qed

lemma write_loop_low_or:
  "low_or (clk_level (pins s)) (clk_after (write_loop buf s))"
proof (induction buf arbitrary: s)
  case Nil
  then show ?case by (simp add: clk_after_def low_or_refl)
next
  case (Cons ch rest)
  have "write_loop (ch # rest) s = and_then (write_char s ch) (write_loop rest)"
    by (simp add: and_then_def)
  then show ?case using write_char_low_or Cons.IH by (simp add: and_then_low_or)
qed

lemma write_buf_low_or:
  "low_or (clk_level (pins s)) (clk_after (write_buf s buf))"
  unfolding write_buf_def home_def
proof (rule and_then_low_or [OF send_low_or])
  fix s1
  show "low_or (clk_level (pins s1)) (clk_after (write_loop buf (s1\<lparr>ch_idx := 0\<rparr>)))"
    using write_loop_low_or [of "s1\<lparr>ch_idx := 0\<rparr>" buf] by simp
qed

text \<open>
  Whether a public operation returns or raises, it leaves the clock low or as it found it:
  an exception is only ever raised between clock pulses.
\<close>

lemma invoke_low_or: "low_or (clk_level (pins s)) (clk_after (invoke c s))"
  by (cases c)
     (simp_all add: write_buf_low_or set_8bit_mode_low_or set_4bit_mode_low_or send_low_or
        clear_def home_def shift_def set_display_opts_def set_entry_mode_def set_function_def
        set_ddram_def set_cgram_def Let_def)

lemma run_low_or: "low_or (clk_level (pins s)) (clk_after (run cs s))"
proof (induction cs arbitrary: s)
  case Nil
  then show ?case by (simp add: clk_after_def low_or_refl)
next
  case (Cons c cs)
  have "run (c # cs) s = and_then (invoke c s) (run cs)" by (simp add: and_then_def)
  then show ?case using invoke_low_or Cons.IH by (simp add: and_then_low_or)
qed

text \<open>The constructor, too: it ends with the clock low or never driven.\<close>

lemma init_low_or: "low_or None (clk_after (init host_pins clk rs rw w h font))"
proof (cases "init_line_addrs w h")
  case (Inl e)
  then show ?thesis by (simp add: init_def clk_after_def low_or_def)
next
  case (Inr la)
  define s0 where "s0 = init_fields
     (case host_pins of None \<Rightarrow> [''GP8'', ''GP30'', ''GP31'', ''GP3''] | Some ps \<Rightarrow> ps)
     clk rs rw w h la"
  have p0: "clk_level (pins s0) = None" by (simp add: s0_def init_fields_def)
  have c: "\<And>s. low_or (clk_level (pins s)) (clk_after (clear s))"
    by (simp add: clear_def send_low_or)
  have f: "\<And>s n f. low_or (clk_level (pins s)) (clk_after (set_function s n f))"
    by (simp add: set_function_def Let_def send_low_or)
  have g: "\<And>s. low_or (clk_level (pins s))
             (clk_after (if height s = 1 then set_function s 0 0 else set_function s 1 0))"
    by (simp add: f)
  have m: "\<And>s. low_or (clk_level (pins s))
             (clk_after (if no_pins s = 8 then set_8bit_mode s
                         else if no_pins s = 4 then set_4bit_mode s
                         else Inl (PyException ''Number of pins must be 4 or 8!'', pins s)))"
    by (simp add: set_8bit_mode_low_or set_4bit_mode_low_or clk_after_Inl low_or_refl)
  have "low_or (clk_level (pins s0)) (clk_after
     (and_then (set_8bit_mode s0)
               (\<lambda>s1. and_then
                  (if no_pins s1 = 8 then set_8bit_mode s1
                   else if no_pins s1 = 4 then set_4bit_mode s1
                   else Inl (PyException ''Number of pins must be 4 or 8!'', pins s1))
                  (\<lambda>s2. and_then (clear s2)
                     (\<lambda>s3. if height s3 = 1 then set_function s3 0 0
                            else set_function s3 1 0)))))"
    by (intro and_then_low_or set_8bit_mode_low_or m c g)
  with Inr p0 show ?thesis by (simp add: init_def Let_def s0_def)
qed

end
